theory Spec2Isabelle
  imports Complex_Main "HOL-Library.AList"
begin

section \<open>Data model of the PDF annotation editor\<close>

text \<open>
  The editor (\<^verbatim>\<open>pdf_editor.tsx\<close>) keeps its working data in React refs: three
  JavaScript \<^verbatim>\<open>Map\<close>s keyed by page index, one \<^verbatim>\<open>Record\<close> of page containers,
  and the transient gesture state. A \<^verbatim>\<open>Map\<close> is modelled as an association list
  (\<open>AList.update\<close> keeps the position of an existing key and appends a new one, as
  \<^verbatim>\<open>Map.set\<close> does; \<open>AList.delete\<close> is \<^verbatim>\<open>Map.delete\<close>; \<open>map_of\<close> is \<^verbatim>\<open>Map.get\<close>).
  A JavaScript number used as a coordinate is the real number it denotes (coordinates
  are finite, so there is no NaN and no infinity), and a subtraction of two of them is
  rounded to the nearest double as the machine does; page indices are integers; canvas
  pixel sizes are naturals.
\<close>

datatype tool = Tool_none | Tool_blur | Tool_erase | Tool_addText

type_synonym point = "real \<times> real"

text \<open>
  An annotation is \<^verbatim>\<open>{id, pageIndex, type, data}\<close> where the shape of \<^verbatim>\<open>data\<close> is
  fixed by \<^verbatim>\<open>type\<close> at each of the three places that build one; tag and payload are
  one datatype here and \<open>ann_type\<close> reads the tag back.
\<close>

datatype ann_data =
    BlurData real real real real
  | EraseData "point list"
  | TextData real real string

record annotation =
  ann_id :: string
  ann_pageIndex :: int
  ann_data :: ann_data

fun ann_type :: "annotation \<Rightarrow> tool" where
  "ann_type a = (case ann_data a of
       BlurData _ _ _ _ \<Rightarrow> Tool_blur
     | EraseData _ \<Rightarrow> Tool_erase
     | TextData _ _ _ \<Rightarrow> Tool_addText)"

text \<open>
  The parent of a canvas is either the page's \<^verbatim>\<open>.rpv-core__page-layer\<close> or, when that
  is absent, the \<^verbatim>\<open>.rpv-core__inner-page\<close> element itself. Page elements are handles
  (naturals) into the renderer's DOM.
\<close>

datatype parent = PageLayer nat | InnerPage nat

record canvas =
  cv_width :: nat
  cv_height :: nat
  cv_position :: string
  cv_top :: string
  cv_left :: string
  cv_zIndex :: string
  cv_pointerEvents :: string
  cv_cursor :: string
  cv_parentElement :: "parent option"

text \<open>What \<^verbatim>\<open>document.createElement('canvas')\<close> returns: 300 by 150, no inline style.\<close>

definition createCanvas :: canvas where
  "createCanvas = \<lparr>cv_width = 300, cv_height = 150, cv_position = [], cv_top = [],
     cv_left = [], cv_zIndex = [], cv_pointerEvents = [], cv_cursor = [],
     cv_parentElement = None\<rparr>"

text \<open>
  A raster operation is recorded together with the context attributes that decide its
  pixels, restricted to the attributes the editor ever assigns (all others keep their
  default throughout). The bitmap of a surface is the list of raster operations applied
  since it was last cleared completely.
\<close>

datatype raster_op =
    FillRect real real real real string string string
  | Stroke "point list" string real string string string
  | FillText string real real string string string string

record context2d =
  fillStyle :: string
  strokeStyle :: string
  lineWidth :: real
  lineCap :: string
  font :: string
  filter_attr :: string
  globalCompositeOperation :: string
  drawn :: "raster_op list"

text \<open>The state of a fresh 2D context, also the state after the canvas is resized.\<close>

definition defaultContext :: context2d where
  "defaultContext = \<lparr>fillStyle = ''#000000'', strokeStyle = ''#000000'', lineWidth = 1,
     lineCap = ''butt'', font = ''10px sans-serif'', filter_attr = ''none'',
     globalCompositeOperation = ''source-over'', drawn = []\<rparr>"

text \<open>
  A page element of the renderer: its pixel box, whether it has the page layer, and the
  inline \<^verbatim>\<open>pointer-events\<close> style of its text layer (\<open>None\<close> when it has no text layer).
\<close>

record page_element =
  offsetWidth :: nat
  offsetHeight :: nat
  hasPageLayer :: bool
  textLayer :: "string option"

record editor =
  activeTool :: tool
  pageContainerRefs :: "(int \<times> nat) list"
  canvasRefs :: "(int \<times> canvas) list"
  contextRefs :: "(int \<times> context2d) list"
  annotationsRef :: "(int \<times> annotation list) list"
  isDrawingRef :: bool
  startCoordsRef :: "point option"
  currentCoordsRef :: "point option"
  document :: "nat \<Rightarrow> page_element"

text \<open>The editor as mounted: no tool, no pages known, nothing drawn.\<close>

definition initialEditor :: "(nat \<Rightarrow> page_element) \<Rightarrow> editor" where
  "initialEditor d = \<lparr>activeTool = Tool_none, pageContainerRefs = [], canvasRefs = [],
     contextRefs = [], annotationsRef = [], isDrawingRef = False, startCoordsRef = None,
     currentCoordsRef = None, document = d\<rparr>"

section \<open>JavaScript numbers\<close>

text \<open>
  IEEE 754 binary64 arithmetic on finite values. \<open>floorLog2 x\<close> is the exponent of the
  binade of a positive \<open>x\<close>, that is the \<open>e\<close> with \<open>2^e \<le> x < 2^(e+1)\<close>.
\<close>

function floorLog2 :: "real \<Rightarrow> int" where
  "floorLog2 x =
     (if x \<le> 0 then 0
      else if x < 1 then floorLog2 (2 * x) - 1
      else if 2 \<le> x then floorLog2 (x / 2) + 1
      else 0)"
  by pat_completeness auto
termination
proof (relation "measure (\<lambda>x. if 1 \<le> x then nat \<lceil>x\<rceil> - 1 else nat \<lceil>1 / x\<rceil>)")
  show "wf (measure (\<lambda>x. if 1 \<le> x then nat \<lceil>x\<rceil> - 1 else nat \<lceil>1 / x\<rceil>))"
    by simp
next
  fix x :: real
  assume a: "\<not> x \<le> 0" "x < 1"
  then have p: "0 < x" by simp
  show "(2 * x, x) \<in> measure (\<lambda>x. if 1 \<le> x then nat \<lceil>x\<rceil> - 1 else nat \<lceil>1 / x\<rceil>)"
  proof (cases "1 \<le> 2 * x")
    case True
    then have "2 * x < 2" using a by simp
    then have "\<lceil>2 * x\<rceil> \<le> 2" by (simp add: ceiling_le_iff)
    moreover have "1 < 1 / x" using a p by simp
    then have "2 \<le> \<lceil>1 / x\<rceil>" by linarith
    ultimately have "nat \<lceil>2 * x\<rceil> - 1 < nat \<lceil>1 / x\<rceil>" by linarith
    then show ?thesis using True a by simp
  next
    case False
    then have "2 < 1 / x" using p by (simp add: field_simps)
    define y where "y = 1 / x"
    have "2 < y" using \<open>2 < 1 / x\<close> by (simp add: y_def)
    then have "\<lceil>y / 2\<rceil> < \<lceil>y\<rceil>" by linarith
    moreover have "1 / (2 * x) = y / 2" by (simp add: y_def)
    ultimately have "\<lceil>1 / (2 * x)\<rceil> < \<lceil>1 / x\<rceil>"
      by (simp only: y_def)
    moreover have "0 < \<lceil>1 / x\<rceil>" using \<open>2 < 1 / x\<close> by linarith
    ultimately have "nat \<lceil>1 / (2 * x)\<rceil> < nat \<lceil>1 / x\<rceil>" by linarith
    then show ?thesis using False a by simp
  qed
next
  fix x :: real
  assume a: "\<not> x \<le> 0" "\<not> x < 1" "2 \<le> x"
  have "\<lceil>x / 2\<rceil> < \<lceil>x\<rceil>" using a by linarith
  moreover have "1 \<le> \<lceil>x / 2\<rceil>" using a by linarith
  ultimately have "nat \<lceil>x / 2\<rceil> - 1 < nat \<lceil>x\<rceil> - 1" by linarith
  then show "(x / 2, x) \<in> measure (\<lambda>x. if 1 \<le> x then nat \<lceil>x\<rceil> - 1 else nat \<lceil>1 / x\<rceil>)"
    using a by simp
qed

text \<open>
  Rounding to the nearest integer, ties to the even one; the spacing of the doubles in
  the binade of exponent \<open>e\<close> (53 significant bits, the exponent held at \<open>-1022\<close> for
  subnormal numbers); and rounding a real number to the nearest double, ties to even.
  Results beyond the largest finite double are not modelled.
\<close>

definition roundHalfEven :: "real \<Rightarrow> int" where
  "roundHalfEven y =
     (let f = \<lfloor>y\<rfloor>; r = y - of_int f
      in if r < 1 / 2 then f else if 1 / 2 < r then f + 1 else if even f then f else f + 1)"

definition ulpOf :: "int \<Rightarrow> real" where
  "ulpOf e = (let k = max e (- 1022) - 52 in if 0 \<le> k then 2 ^ nat k else 1 / 2 ^ nat (- k))"

definition roundDouble :: "real \<Rightarrow> real" where
  "roundDouble x =
     (if x = 0 then 0
      else let q = ulpOf (floorLog2 \<bar>x\<bar>) in of_int (roundHalfEven (x / q)) * q)"

text \<open>The \<^verbatim>\<open>-\<close> operator on two finite numbers.\<close>

definition jsMinus :: "real \<Rightarrow> real \<Rightarrow> real" where
  "jsMinus a b = roundDouble (a - b)"

section \<open>Compositor\<close>

definition drawBlurOverlay :: "context2d \<Rightarrow> real \<Rightarrow> real \<Rightarrow> real \<Rightarrow> real \<Rightarrow> context2d" where
  "drawBlurOverlay context startX startY endX endY =
     (let x = min startX endX;
          y = min startY endY;
          width = \<bar>jsMinus startX endX\<bar>;
          height = \<bar>jsMinus startY endY\<bar>;
          c1 = context\<lparr>filter_attr := ''blur(4px)''\<rparr>;
          c2 = c1\<lparr>fillStyle := ''rgba(50, 50, 50, 0.85)''\<rparr>;
          c3 = c2\<lparr>drawn := drawn c2 @
                 [FillRect x y width height (fillStyle c2) (filter_attr c2)
                    (globalCompositeOperation c2)]\<rparr>
      in c3\<lparr>filter_attr := ''none''\<rparr>)"

definition drawText :: "context2d \<Rightarrow> real \<Rightarrow> real \<Rightarrow> string \<Rightarrow> context2d" where
  "drawText context x y text =
     (let c1 = context\<lparr>font := ''24px Arial''\<rparr>;
          c2 = c1\<lparr>fillStyle := ''blue''\<rparr>
      in c2\<lparr>drawn := drawn c2 @
            [FillText text x y (font c2) (fillStyle c2) (filter_attr c2)
               (globalCompositeOperation c2)]\<rparr>)"

text \<open>
  The erase branch of \<^verbatim>\<open>drawAnnotation\<close>: \<^verbatim>\<open>beginPath\<close>, \<^verbatim>\<open>moveTo\<close> the first point,
  \<^verbatim>\<open>lineTo\<close> the others, \<^verbatim>\<open>stroke\<close>. The path built is exactly the stored point list
  (empty when the list is empty).
\<close>

definition strokePath :: "context2d \<Rightarrow> point list \<Rightarrow> context2d" where
  "strokePath context path =
     (let c1 = context\<lparr>strokeStyle := ''white''\<rparr>;
          c2 = c1\<lparr>lineWidth := 10\<rparr>;
          c3 = c2\<lparr>lineCap := ''round''\<rparr>
      in c3\<lparr>drawn := drawn c3 @
            [Stroke path (strokeStyle c3) (lineWidth c3) (lineCap c3) (filter_attr c3)
               (globalCompositeOperation c3)]\<rparr>)"

definition drawOnContext :: "context2d \<Rightarrow> annotation \<Rightarrow> context2d" where
  "drawOnContext context annotation =
     (let c = context\<lparr>globalCompositeOperation := ''source-over''\<rparr>
      in case ann_data annotation of
           BlurData startX startY endX endY \<Rightarrow> drawBlurOverlay c startX startY endX endY
         | EraseData path \<Rightarrow> strokePath c path
         | TextData x y text \<Rightarrow> drawText c x y text)"

definition drawAnnotation :: "int \<Rightarrow> annotation \<Rightarrow> editor \<Rightarrow> editor" where
  "drawAnnotation pageIndex annotation s =
     (case map_of (contextRefs s) pageIndex of
        None \<Rightarrow> s
      | Some context \<Rightarrow>
          (case map_of (canvasRefs s) pageIndex of
             None \<Rightarrow> s
           | Some canvas \<Rightarrow>
               s\<lparr>contextRefs :=
                   AList.update pageIndex (drawOnContext context annotation) (contextRefs s)\<rparr>))"

definition pageAnnotationsOf :: "editor \<Rightarrow> int \<Rightarrow> annotation list" where
  "pageAnnotationsOf s pageIndex =
     (case map_of (annotationsRef s) pageIndex of None \<Rightarrow> [] | Some anns \<Rightarrow> anns)"

definition redrawPageAnnotations :: "int \<Rightarrow> editor \<Rightarrow> editor" where
  "redrawPageAnnotations pageIndex s =
     (case map_of (contextRefs s) pageIndex of
        None \<Rightarrow> s
      | Some context \<Rightarrow>
          (case map_of (canvasRefs s) pageIndex of
             None \<Rightarrow> s
           | Some canvas \<Rightarrow>
               fold (drawAnnotation pageIndex) (pageAnnotationsOf s pageIndex)
                 (s\<lparr>contextRefs :=
                      AList.update pageIndex (context\<lparr>drawn := []\<rparr>) (contextRefs s)\<rparr>)))"

text \<open>The pixels of the surface of a page: the bitmap its context has drawn.\<close>

definition pixelsOf :: "editor \<Rightarrow> int \<Rightarrow> raster_op list option" where
  "pixelsOf s pageIndex = map_option drawn (map_of (contextRefs s) pageIndex)"

section \<open>Overlay canvas manager\<close>

text \<open>
  \<^verbatim>\<open>handlePageContainerRefsChange\<close> only stores the mapping the viewer emitted. The
  viewer builds every mapping from DOM elements, so the \<^verbatim>\<open>null\<close> alternative of the
  TypeScript type never occurs as a value and an index is known exactly when it has an
  element.
\<close>

definition handlePageContainerRefsChange :: "(int \<times> nat) list \<Rightarrow> editor \<Rightarrow> editor" where
  "handlePageContainerRefsChange refs s = s\<lparr>pageContainerRefs := refs\<rparr>"

definition isDrawingTool :: "tool \<Rightarrow> bool" where
  "isDrawingTool t \<longleftrightarrow> t = Tool_blur \<or> t = Tool_erase \<or> t = Tool_addText"

definition canvasCursor :: "tool \<Rightarrow> string" where
  "canvasCursor t =
     (if t = Tool_blur \<or> t = Tool_erase then ''crosshair''
      else if t = Tool_addText then ''text'' else ''default'')"

text \<open>
  The tail of the first loop body of the canvas lifecycle effect: size the canvas to the
  page element's pixel box (assigning \<^verbatim>\<open>canvas.width\<close> clears the bitmap and resets the
  context, when there is one), position it, route pointer input by the active tool, and
  redraw the page.
\<close>

definition overlayCanvas :: "int \<Rightarrow> page_element \<Rightarrow> editor \<Rightarrow> editor" where
  "overlayCanvas pageIndex pageElement s =
     (case map_of (canvasRefs s) pageIndex of
        None \<Rightarrow> s
      | Some canvas \<Rightarrow>
          (let canvas' = canvas\<lparr>cv_width := offsetWidth pageElement,
                 cv_height := offsetHeight pageElement,
                 cv_position := ''absolute'', cv_top := ''0'', cv_left := ''0'',
                 cv_zIndex := ''5'',
                 cv_pointerEvents := (if isDrawingTool (activeTool s) then ''auto'' else ''none''),
                 cv_cursor := canvasCursor (activeTool s)\<rparr>;
               contexts' = (case map_of (contextRefs s) pageIndex of
                   None \<Rightarrow> contextRefs s
                 | Some context \<Rightarrow> AList.update pageIndex defaultContext (contextRefs s))
           in redrawPageAnnotations pageIndex
                (s\<lparr>canvasRefs := AList.update pageIndex canvas' (canvasRefs s),
                   contextRefs := contexts'\<rparr>)))"

text \<open>
  The first loop body of the effect, for one known page index. \<open>getContext pageIndex\<close>
  tells whether \<^verbatim>\<open>getContext('2d')\<close> on the canvas created for that index yields a
  context; when it does not, the canvas stays registered without a context and the body
  returns early.
\<close>

definition manageCanvas :: "(int \<Rightarrow> bool) \<Rightarrow> int \<Rightarrow> editor \<Rightarrow> editor" where
  "manageCanvas getContext pageIndex s =
     (case map_of (pageContainerRefs s) pageIndex of
        None \<Rightarrow> s
      | Some element \<Rightarrow>
          (let pageElement = document s element;
               targetParent = (if hasPageLayer pageElement then PageLayer element
                               else InnerPage element)
           in case map_of (canvasRefs s) pageIndex of
                None \<Rightarrow>
                  (let customCanvas = createCanvas\<lparr>cv_parentElement := Some targetParent\<rparr>;
                       s1 = s\<lparr>canvasRefs := AList.update pageIndex customCanvas (canvasRefs s)\<rparr>
                   in if getContext pageIndex
                      then overlayCanvas pageIndex pageElement
                             (s1\<lparr>contextRefs :=
                                   AList.update pageIndex defaultContext (contextRefs s1)\<rparr>)
                      else s1)
              | Some customCanvas \<Rightarrow>
                  (let s1 = (if cv_parentElement customCanvas \<noteq> Some targetParent
                             then s\<lparr>canvasRefs := AList.update pageIndex
                                      (customCanvas\<lparr>cv_parentElement := Some targetParent\<rparr>)
                                      (canvasRefs s)\<rparr>
                             else s)
                   in overlayCanvas pageIndex pageElement s1)))"

text \<open>The second loop body: drop the surface and the annotations of a vanished page.\<close>

definition removeCanvas :: "int \<Rightarrow> editor \<Rightarrow> editor" where
  "removeCanvas pageIndex s =
     (if map_of (pageContainerRefs s) pageIndex = None
      then (case map_of (canvasRefs s) pageIndex of
              None \<Rightarrow> s
            | Some canvasToRemove \<Rightarrow>
                s\<lparr>canvasRefs := AList.delete pageIndex (canvasRefs s),
                  contextRefs := AList.delete pageIndex (contextRefs s),
                  annotationsRef := AList.delete pageIndex (annotationsRef s)\<rparr>)
      else s)"

text \<open>
  The canvas lifecycle effect. Both index lists are read before the first loop runs, as
  the source does.
\<close>

definition canvasLifecycleEffect :: "(int \<Rightarrow> bool) \<Rightarrow> editor \<Rightarrow> editor" where
  "canvasLifecycleEffect getContext s =
     (let currentKnownPageIndices = map fst (pageContainerRefs s);
          currentActiveCanvasIndices = map fst (canvasRefs s)
      in fold removeCanvas currentActiveCanvasIndices
           (fold (manageCanvas getContext) currentKnownPageIndices s))"

text \<open>A live drawing surface: a canvas together with its 2D context.\<close>

definition liveSurfaces :: "editor \<Rightarrow> int set" where
  "liveSurfaces s = fst ` set (canvasRefs s) \<inter> fst ` set (contextRefs s)"

section \<open>Tool selection\<close>

definition applyToolToCanvas :: "string \<Rightarrow> string \<Rightarrow> string \<Rightarrow> int \<Rightarrow> editor \<Rightarrow> editor" where
  "applyToolToCanvas canvasPointerEvents cursor textLayerPointerEvents pageIndex s =
     (case map_of (canvasRefs s) pageIndex of
        None \<Rightarrow> s
      | Some canvas \<Rightarrow>
          (let s1 = s\<lparr>canvasRefs := AList.update pageIndex
                        (canvas\<lparr>cv_pointerEvents := canvasPointerEvents, cv_cursor := cursor\<rparr>)
                        (canvasRefs s)\<rparr>
           in case map_of (pageContainerRefs s1) pageIndex of
                None \<Rightarrow> s1
              | Some element \<Rightarrow>
                  (case textLayer (document s1 element) of
                     None \<Rightarrow> s1
                   | Some previous \<Rightarrow>
                       s1\<lparr>document := (document s1)
                            (element := (document s1 element)
                               \<lparr>textLayer := Some textLayerPointerEvents\<rparr>)\<rparr>)))"

definition handleToolChange :: "tool \<Rightarrow> editor \<Rightarrow> editor" where
  "handleToolChange t s =
     (let s1 = s\<lparr>activeTool := t\<rparr>;
          canvasPointerEvents = (if isDrawingTool t then ''auto'' else ''none'');
          textLayerPointerEvents = (if isDrawingTool t then ''none'' else ''auto'');
          s2 = fold (applyToolToCanvas canvasPointerEvents (canvasCursor t) textLayerPointerEvents)
                 (map fst (canvasRefs s1)) s1
      in if \<not> isDrawingTool t
         then s2\<lparr>isDrawingRef := False, startCoordsRef := None, currentCoordsRef := None\<rparr>
         else s2)"

section \<open>Page labels\<close>

text \<open>
  JavaScript's \<^verbatim>\<open>parseInt(string, radix)\<close> on byte strings: skip leading white space,
  read a sign, strip a \<^verbatim>\<open>0x\<close> prefix when the radix is 16 or omitted (written 0 here),
  read the longest prefix of digits. \<open>None\<close> is \<^verbatim>\<open>NaN\<close>. A string is a sequence of
  code units below 256, of which seven are white space. Integers are unbounded here: the
  value is the one JavaScript returns for a numeral below \<open>2^53\<close>, and a longer numeral,
  which JavaScript rounds to a double, is no page number of a document.
\<close>

definition isWhiteSpace :: "char \<Rightarrow> bool" where
  "isWhiteSpace c \<longleftrightarrow>
     c \<in> set [CHR '' '', CHR 0x09, CHR 0x0A, CHR 0x0B, CHR 0x0C, CHR 0x0D, CHR 0xA0]"

definition digitOf :: "nat \<Rightarrow> char \<Rightarrow> nat option" where
  "digitOf radix c =
     (let n = (of_char c :: nat);
          d = (if 48 \<le> n \<and> n \<le> 57 then Some (n - 48)
               else if 97 \<le> n \<and> n \<le> 122 then Some (n - 87)
               else if 65 \<le> n \<and> n \<le> 90 then Some (n - 55)
               else None)
      in case d of None \<Rightarrow> None | Some v \<Rightarrow> if v < radix then Some v else None)"

fun digitsPrefix :: "nat \<Rightarrow> string \<Rightarrow> nat list" where
  "digitsPrefix radix [] = []"
| "digitsPrefix radix (c # cs) =
     (case digitOf radix c of None \<Rightarrow> [] | Some d \<Rightarrow> d # digitsPrefix radix cs)"

definition digitsValue :: "nat \<Rightarrow> nat list \<Rightarrow> nat" where
  "digitsValue radix ds = foldl (\<lambda>acc d. acc * radix + d) 0 ds"

definition parseInt :: "string \<Rightarrow> nat \<Rightarrow> int option" where
  "parseInt string radix =
     (let s0 = dropWhile isWhiteSpace string;
          negative = (take 1 s0 = ''-'');
          s1 = (if take 1 s0 = ''+'' \<or> take 1 s0 = ''-'' then drop 1 s0 else s0);
          stripPrefix = ((radix = 0 \<or> radix = 16) \<and> (take 2 s1 = ''0x'' \<or> take 2 s1 = ''0X''));
          r = (if stripPrefix then 16 else if radix = 0 then 10 else radix);
          s2 = (if stripPrefix then drop 2 s1 else s1);
          ds = digitsPrefix r s2
      in if radix \<noteq> 0 \<and> (radix < 2 \<or> 36 < radix) then None
         else if ds = [] then None
         else Some ((if negative then - 1 else 1) * int (digitsValue r ds)))"

definition trim :: "string \<Rightarrow> string" where
  "trim s = rev (dropWhile isWhiteSpace (rev (dropWhile isWhiteSpace s)))"

text \<open>
  The editor's page index of a page element's \<^verbatim>\<open>aria-label\<close> (\<open>None\<close> where the
  attribute is missing): \<^verbatim>\<open>parseInt(label.replace('Page ', '')) - 1\<close>, or \<open>-1\<close> when the
  label does not start with \<^verbatim>\<open>Page \<close>. The result \<open>None\<close> is \<^verbatim>\<open>NaN\<close>.
\<close>

definition editorPageIndex :: "string option \<Rightarrow> int option" where
  "editorPageIndex ariaLabel =
     (case ariaLabel of
        None \<Rightarrow> Some (- 1)
      | Some label \<Rightarrow>
          if take 5 label = ''Page ''
          then map_option (\<lambda>n. n - 1) (parseInt (drop 5 label) 0)
          else Some (- 1))"

section \<open>Drawing tool state machine\<close>

datatype event_type = MouseDown | MouseMove | MouseUp

text \<open>
  A pointer event as the handler reads it: its type; the \<^verbatim>\<open>aria-label\<close> of the closest
  \<^verbatim>\<open>.rpv-core__inner-page\<close> ancestor of the target (\<open>None\<close> when there is no such
  ancestor); the client coordinates; the left and top of the bounding rectangle of that
  page's canvas at the time of the event; and what \<^verbatim>\<open>prompt\<close> and \<^verbatim>\<open>uuidv4\<close> return if
  the handler calls them.
\<close>

record mouse_event =
  ev_type :: event_type
  ev_page :: "string option option"
  clientX :: real
  clientY :: real
  rect_left :: real
  rect_top :: real
  prompt_reply :: "string option"
  uuid :: string

definition boundedCanvas :: "mouse_event \<Rightarrow> canvas \<Rightarrow> point" where
  "boundedCanvas event canvas =
     (let canvasX = jsMinus (clientX event) (rect_left event);
          canvasY = jsMinus (clientY event) (rect_top event)
      in (max 0 (min canvasX (real (cv_width canvas))),
          max 0 (min canvasY (real (cv_height canvas)))))"

text \<open>
  The erase branch of a move: extend the page's last annotation when it is an erase
  stroke (in place, so the entry keeps its position), otherwise append a new stroke made
  of the start point and the current point.
\<close>

definition eraseMove :: "int \<Rightarrow> point \<Rightarrow> point \<Rightarrow> string \<Rightarrow> editor \<Rightarrow> editor" where
  "eraseMove pageIndex start current newId s =
     (let pageAnnotations = pageAnnotationsOf s pageIndex;
          created = s\<lparr>annotationsRef := AList.update pageIndex
                       (pageAnnotations @
                          [\<lparr>ann_id = newId, ann_pageIndex = pageIndex,
                            ann_data = EraseData [start, current]\<rparr>])
                       (annotationsRef s)\<rparr>
      in case rev pageAnnotations of
           [] \<Rightarrow> created
         | lastAnnotation # before \<Rightarrow>
             (case ann_data lastAnnotation of
                EraseData path \<Rightarrow>
                  s\<lparr>annotationsRef := AList.update pageIndex
                      (butlast pageAnnotations @
                         [lastAnnotation\<lparr>ann_data := EraseData (path @ [current])\<rparr>])
                      (annotationsRef s)\<rparr>
              | BlurData a b c d \<Rightarrow> created
              | TextData a b c \<Rightarrow> created))"

text \<open>
  A move while drawing. The context is an object shared with \<^verbatim>\<open>contextRefs\<close>, so the
  preview is drawn on the context as the preceding redraw left it.
\<close>

definition handleMouseMove :: "int \<Rightarrow> point \<Rightarrow> string \<Rightarrow> editor \<Rightarrow> editor" where
  "handleMouseMove pageIndex bounded newId s =
     (let s1 = redrawPageAnnotations pageIndex (s\<lparr>currentCoordsRef := Some bounded\<rparr>)
      in case startCoordsRef s1 of
           None \<Rightarrow> s1
         | Some start \<Rightarrow>
             if activeTool s1 = Tool_blur
             then (case map_of (contextRefs s1) pageIndex of
                     None \<Rightarrow> s1
                   | Some context \<Rightarrow>
                       s1\<lparr>contextRefs := AList.update pageIndex
                            (drawBlurOverlay context (fst start) (snd start)
                               (fst bounded) (snd bounded))
                            (contextRefs s1)\<rparr>)
             else if activeTool s1 = Tool_erase
             then redrawPageAnnotations pageIndex (eraseMove pageIndex start bounded newId s1)
             else s1)"

definition newAnnotationOnRelease ::
  "tool \<Rightarrow> int \<Rightarrow> point \<Rightarrow> point \<Rightarrow> string option \<Rightarrow> string \<Rightarrow> annotation option" where
  "newAnnotationOnRelease t pageIndex start end reply newId =
     (let startX = fst start; startY = snd start; endX = fst end; endY = snd end
      in if t = Tool_blur
         then (if \<bar>jsMinus startX endX\<bar> > 5 \<or> \<bar>jsMinus startY endY\<bar> > 5
               then Some \<lparr>ann_id = newId, ann_pageIndex = pageIndex,
                           ann_data = BlurData startX startY endX endY\<rparr>
               else None)
         else if t = Tool_erase then None
         else if t = Tool_addText
         then (case reply of
                 None \<Rightarrow> None
               | Some textContent \<Rightarrow>
                   if textContent \<noteq> []
                   then Some \<lparr>ann_id = newId, ann_pageIndex = pageIndex,
                               ann_data = TextData endX endY textContent\<rparr>
                   else None)
         else None)"

definition handleMouseUp :: "int \<Rightarrow> point \<Rightarrow> string option \<Rightarrow> string \<Rightarrow> editor \<Rightarrow> editor" where
  "handleMouseUp pageIndex bounded reply newId s =
     (let s1 = s\<lparr>isDrawingRef := False\<rparr>;
          s2 = (case startCoordsRef s1 of
                  None \<Rightarrow> s1
                | Some start \<Rightarrow>
                    (case newAnnotationOnRelease (activeTool s1) pageIndex start bounded reply newId of
                       None \<Rightarrow> s1
                     | Some newAnnotation \<Rightarrow>
                         s1\<lparr>annotationsRef := AList.update pageIndex
                              (pageAnnotationsOf s1 pageIndex @ [newAnnotation])
                              (annotationsRef s1)\<rparr>))
      in redrawPageAnnotations pageIndex
           (s2\<lparr>startCoordsRef := None, currentCoordsRef := None\<rparr>))"

definition handleToolInteraction :: "mouse_event \<Rightarrow> editor \<Rightarrow> editor" where
  "handleToolInteraction event s =
     (if activeTool s = Tool_none then s
      else case ev_page event of
        None \<Rightarrow> s
      | Some ariaLabel \<Rightarrow>
          (case editorPageIndex ariaLabel of
             None \<Rightarrow> s
           | Some pageIndex \<Rightarrow>
               if pageIndex = - 1 then s
               else (case map_of (canvasRefs s) pageIndex of
                 None \<Rightarrow> s
               | Some canvas \<Rightarrow>
                   (case map_of (contextRefs s) pageIndex of
                      None \<Rightarrow> s
                    | Some context \<Rightarrow>
                        (let bounded = boundedCanvas event canvas
                         in if ev_type event = MouseDown
                            then s\<lparr>isDrawingRef := True, startCoordsRef := Some bounded,
                                   currentCoordsRef := Some bounded\<rparr>
                            else if ev_type event = MouseMove \<and> isDrawingRef s
                            then handleMouseMove pageIndex bounded (uuid event) s
                            else if ev_type event = MouseUp
                            then handleMouseUp pageIndex bounded (prompt_reply event) (uuid event) s
                            else s)))))"

text \<open>The \<^verbatim>\<open>onMouseLeave\<close> handler of the viewer container.\<close>

definition handleMouseLeave :: "editor \<Rightarrow> editor" where
  "handleMouseLeave s =
     (if isDrawingRef s
      then fold redrawPageAnnotations (map fst (canvasRefs s))
             (s\<lparr>isDrawingRef := False, startCoordsRef := None, currentCoordsRef := None\<rparr>)
      else s)"

section \<open>Export flattener\<close>

text \<open>
  A loaded PDF document: its pages, each with its size, its original content and the
  images drawn over it since loading, and the images embedded in the document.
\<close>

type_synonym bytes = "nat list"

record drawn_image =
  img_bytes :: bytes
  img_x :: real
  img_y :: real
  img_width :: real
  img_height :: real

record pdf_page =
  page_width :: real
  page_height :: real
  page_content :: bytes
  page_images :: "drawn_image list"

record pdf_document =
  pages :: "pdf_page list"
  embedded :: "bytes list"

text \<open>
  The library and platform calls of the export, each returning \<open>None\<close> where the call
  throws or its promise rejects: \<^verbatim>\<open>fetch(url).arrayBuffer()\<close>, \<^verbatim>\<open>PDFDocument.load\<close>,
  rasterising a canvas (\<^verbatim>\<open>toDataURL\<close> fetched back as bytes, a function of the canvas
  and its bitmap), \<^verbatim>\<open>embedPng\<close> and \<^verbatim>\<open>save\<close>.
\<close>

record export_env =
  fetchBytes :: "string \<Rightarrow> bytes option"
  loadPdf :: "bytes \<Rightarrow> pdf_document option"
  rasterize :: "canvas \<Rightarrow> raster_op list \<Rightarrow> bytes option"
  embedPng :: "bytes \<Rightarrow> bytes option"
  savePdf :: "pdf_document \<Rightarrow> bytes option"

definition bitmapOf :: "editor \<Rightarrow> int \<Rightarrow> raster_op list" where
  "bitmapOf s pageIndex =
     (case map_of (contextRefs s) pageIndex of None \<Rightarrow> [] | Some context \<Rightarrow> drawn context)"

text \<open>The loop body of \<^verbatim>\<open>handleDownload\<close> for page \<open>i\<close>.\<close>

definition flattenPage :: "export_env \<Rightarrow> editor \<Rightarrow> nat \<Rightarrow> pdf_document \<Rightarrow> pdf_document option" where
  "flattenPage env s i pdfDoc =
     (let page = pages pdfDoc ! i
      in case map_of (canvasRefs s) (int i) of
           None \<Rightarrow> Some pdfDoc
         | Some canvasForPage \<Rightarrow>
             (case map_of (annotationsRef s) (int i) of
                None \<Rightarrow> Some pdfDoc
              | Some annotationsOnPage \<Rightarrow>
                  if length annotationsOnPage > 0
                  then (case rasterize env canvasForPage (bitmapOf s (int i)) of
                          None \<Rightarrow> None
                        | Some canvasImageBytes \<Rightarrow>
                            (case embedPng env canvasImageBytes of
                               None \<Rightarrow> None
                             | Some embeddedImage \<Rightarrow>
                                 Some (pdfDoc\<lparr>
                                   embedded := embedded pdfDoc @ [embeddedImage],
                                   pages := (pages pdfDoc)[i := page\<lparr>page_images :=
                                     page_images page @
                                       [\<lparr>img_bytes = embeddedImage, img_x = 0, img_y = 0,
                                         img_width = page_width page,
                                         img_height = page_height page\<rparr>]\<rparr>]\<rparr>)))
                  else Some pdfDoc))"

fun flattenPages :: "export_env \<Rightarrow> editor \<Rightarrow> nat list \<Rightarrow> pdf_document \<Rightarrow> pdf_document option" where
  "flattenPages env s [] pdfDoc = Some pdfDoc"
| "flattenPages env s (i # rest) pdfDoc =
     (case flattenPage env s i pdfDoc of
        None \<Rightarrow> None
      | Some pdfDoc' \<Rightarrow> flattenPages env s rest pdfDoc')"

record saved_file =
  file_name :: string
  mime_type :: string
  file_bytes :: bytes

datatype download_outcome = NoUrl | ExportFailed | Saved saved_file

text \<open>
  \<^verbatim>\<open>handleDownload\<close>: the whole body after the URL check sits in one \<^verbatim>\<open>try\<close>, whose
  \<^verbatim>\<open>catch\<close> only logs. The outcome says what was handed to \<^verbatim>\<open>saveAs\<close>. The page loop
  reads the page count once the document is loaded.
\<close>

definition handleDownload :: "export_env \<Rightarrow> string \<Rightarrow> editor \<Rightarrow> download_outcome" where
  "handleDownload env pdfUrl s =
     (if pdfUrl = [] then NoUrl
      else case fetchBytes env pdfUrl of
        None \<Rightarrow> ExportFailed
      | Some originalPdfBytes \<Rightarrow>
          (case loadPdf env originalPdfBytes of
             None \<Rightarrow> ExportFailed
           | Some pdfDoc \<Rightarrow>
               (case flattenPages env s [0..<length (pages pdfDoc)] pdfDoc of
                  None \<Rightarrow> ExportFailed
                | Some flattened \<Rightarrow>
                    (case savePdf env flattened of
                       None \<Rightarrow> ExportFailed
                     | Some modifiedPdfBytes \<Rightarrow>
                         Saved \<lparr>file_name = ''edited-document.pdf'',
                                mime_type = ''application/pdf'',
                                file_bytes = modifiedPdfBytes\<rparr>))))"

section \<open>Page surface registry\<close>

text \<open>
  The viewer's page index of an \<^verbatim>\<open>aria-label\<close>: \<open>-1\<close> unless the label reads
  \<^verbatim>\<open>Page N\<close> with \<open>N \<ge> 1\<close> in decimal.
\<close>

definition viewerPageIndex :: "string option \<Rightarrow> int" where
  "viewerPageIndex ariaLabel =
     (case ariaLabel of
        None \<Rightarrow> - 1
      | Some label \<Rightarrow>
          if take 5 label = ''Page ''
          then (case parseInt (trim (drop 5 label)) 10 of
                  None \<Rightarrow> - 1
                | Some parsedNum \<Rightarrow> if parsedNum \<ge> 1 then parsedNum - 1 else - 1)
          else - 1)"

text \<open>
  The entries of an object with numeric keys in the order JavaScript enumerates them: the
  array indices (below \<open>2^32 - 1\<close>) ascending, then the other keys in the order they
  were first assigned.
\<close>

definition ownEntries :: "(int \<times> nat) list \<Rightarrow> (int \<times> nat) list" where
  "ownEntries obj =
     (let (indices, others) = partition (\<lambda>(k, v). k < 2 ^ 32 - 1) obj
      in sort_key fst indices @ others)"

text \<open>
  The loop over the page elements that fills \<^verbatim>\<open>newRefs\<close>; the mapping is given by its
  entries as enumerated.
\<close>

definition collectRefs :: "(nat \<times> string option) list \<Rightarrow> (int \<times> nat) list" where
  "collectRefs currentPageElements =
     ownEntries
       (fold (\<lambda>(element, ariaLabel) newRefs.
                let pageIndex = viewerPageIndex ariaLabel
                in if pageIndex \<noteq> - 1 then AList.update pageIndex element newRefs else newRefs)
          currentPageElements [])"

text \<open>
  \<^verbatim>\<open>handleMutations\<close> over the page elements now in the DOM (handle and label), given the
  mapping last sent to the editor. It returns the new value of that mapping and the
  mapping emitted, if any. The comparison of the sorted, joined key strings is the
  comparison of the key sets.
\<close>

definition handleMutations ::
  "(nat \<times> string option) list \<Rightarrow> (int \<times> nat) list \<Rightarrow> (int \<times> nat) list \<times> (int \<times> nat) list option" where
  "handleMutations currentPageElements currentRefsSentToParent =
     (if length currentPageElements = 0
      then (if length currentRefsSentToParent > 0 then ([], Some [])
            else (currentRefsSentToParent, None))
      else (let newRefs = collectRefs currentPageElements
            in if set (map fst newRefs) \<noteq> set (map fst currentRefsSentToParent)
               then (newRefs, Some newRefs)
               else (currentRefsSentToParent, None)))"

datatype poll_outcome = ObserverAttached nat | GaveUp

text \<open>
  \<^verbatim>\<open>pollForViewerAndAttachObserver(attempt, maxAttempts)\<close>. \<open>found k\<close> tells whether the
  renderer's root element is in the DOM when attempt \<open>k\<close> looks for it. The result is the
  outcome and the delays, in milliseconds, of the timers set on the way.
\<close>

function pollForViewerAndAttachObserver ::
  "(nat \<Rightarrow> bool) \<Rightarrow> nat \<Rightarrow> nat \<Rightarrow> poll_outcome \<times> nat list" where
  "pollForViewerAndAttachObserver found attempt maxAttempts =
     (if found attempt then (ObserverAttached attempt, [])
      else if attempt < maxAttempts
      then (let (outcome, delays) = pollForViewerAndAttachObserver found (attempt + 1) maxAttempts
            in (outcome, 200 # delays))
      else (GaveUp, []))"
  by pat_completeness auto
termination
  by (relation "measure (\<lambda>(found, attempt, maxAttempts). maxAttempts - attempt)") auto

text \<open>The call the mounting effect makes, with the default arguments.\<close>

definition startPolling :: "(nat \<Rightarrow> bool) \<Rightarrow> poll_outcome \<times> nat list" where
  "startPolling found = pollForViewerAndAttachObserver found 0 50"

section \<open>Derived notions used in the statements\<close>

text \<open>
  What replaying one annotation paints on a context whose filter is \<^verbatim>\<open>none\<close>: the
  raster operation with the attributes \<open>drawOnContext\<close> has set by then.
\<close>

definition rasterOf :: "annotation \<Rightarrow> raster_op" where
  "rasterOf a =
     (case ann_data a of
        BlurData startX startY endX endY \<Rightarrow>
          FillRect (min startX endX) (min startY endY)
            \<bar>jsMinus startX endX\<bar> \<bar>jsMinus startY endY\<bar>
            ''rgba(50, 50, 50, 0.85)'' ''blur(4px)'' ''source-over''
      | EraseData path \<Rightarrow> Stroke path ''white'' 10 ''round'' ''none'' ''source-over''
      | TextData x y text \<Rightarrow> FillText text x y ''24px Arial'' ''blue'' ''none'' ''source-over'')"

text \<open>Every registered context has its filter back at \<^verbatim>\<open>none\<close>.\<close>

definition filtersReset :: "editor \<Rightarrow> bool" where
  "filtersReset s \<longleftrightarrow> list_all (\<lambda>(i, c). filter_attr c = ''none'') (contextRefs s)"

text \<open>
  The states the editor can be in: it is mounted, and then the viewer's callback, the
  canvas lifecycle effect, the tool buttons, the pointer handlers and the renderer (which
  owns the page elements) act in any order.
\<close>

inductive reachable :: "editor \<Rightarrow> bool" where
  mounted: "reachable (initialEditor d)"
| registry: "reachable s \<Longrightarrow> reachable (handlePageContainerRefsChange refs s)"
| effect: "reachable s \<Longrightarrow> reachable (canvasLifecycleEffect getContext s)"
| toolChange: "reachable s \<Longrightarrow> reachable (handleToolChange t s)"
| interaction: "reachable s \<Longrightarrow> reachable (handleToolInteraction event s)"
| mouseLeave: "reachable s \<Longrightarrow> reachable (handleMouseLeave s)"
| renderer: "reachable s \<Longrightarrow> reachable (s\<lparr>document := d\<rparr>)"

text \<open>
  Fixtures for the concrete instances below: pointer events, and a one-page document
  whose text layer has no inline \<^verbatim>\<open>pointer-events\<close> style yet, as the renderer creates it.
\<close>

definition samplePage :: page_element where
  "samplePage = \<lparr>offsetWidth = 100, offsetHeight = 200, hasPageLayer = True,
     textLayer = Some []\<rparr>"

definition sampleDocument :: "nat \<Rightarrow> page_element" where
  "sampleDocument = (\<lambda>element. samplePage)"

definition pointerAt :: "event_type \<Rightarrow> string \<Rightarrow> real \<Rightarrow> real \<Rightarrow> mouse_event" where
  "pointerAt t label x y = \<lparr>ev_type = t, ev_page = Some (Some label), clientX = x, clientY = y,
     rect_left = 0, rect_top = 0, prompt_reply = None, uuid = ''id''\<rparr>"

text \<open>
  One page (index 0, element 7) known to the editor, the given tool selected, and the
  effect run with a context obtained.
\<close>

definition onePage :: "tool \<Rightarrow> editor" where
  "onePage t = canvasLifecycleEffect (\<lambda>i. True)
     (handleToolChange t (handlePageContainerRefsChange [(0, 7)] (initialEditor sampleDocument)))"

text \<open>The one-page editor after a blur drag from (0,0) to (50,50).\<close>

definition blurred :: editor where
  "blurred = handleToolInteraction (pointerAt MouseUp ''Page 1'' 50 50)
     (handleToolInteraction (pointerAt MouseDown ''Page 1'' 0 0) (onePage Tool_blur))"

text \<open>
  Page \<open>i\<close> gets through the export loop: it is skipped, or its surface rasterises
  and the image embeds.
\<close>

definition pageFlattens :: "export_env \<Rightarrow> editor \<Rightarrow> nat \<Rightarrow> bool" where
  "pageFlattens env s i =
     (case map_of (canvasRefs s) (int i) of
        None \<Rightarrow> True
      | Some canvasForPage \<Rightarrow>
          pageAnnotationsOf s (int i) = [] \<or>
          (case rasterize env canvasForPage (bitmapOf s (int i)) of
             None \<Rightarrow> False
           | Some canvasImageBytes \<Rightarrow> embedPng env canvasImageBytes \<noteq> None))"

text \<open>The file \<^verbatim>\<open>handleDownload\<close> hands to \<^verbatim>\<open>saveAs\<close> for given output bytes.\<close>

definition editedFile :: "bytes \<Rightarrow> saved_file" where
  "editedFile modifiedPdfBytes = \<lparr>file_name = ''edited-document.pdf'',
     mime_type = ''application/pdf'', file_bytes = modifiedPdfBytes\<rparr>"

text \<open>A platform where every step of the export succeeds (fixture).\<close>

definition sampleEnv :: export_env where
  "sampleEnv = \<lparr>fetchBytes = (\<lambda>url. Some [37, 80, 68, 70]),
     loadPdf = (\<lambda>b. Some \<lparr>pages = [\<lparr>page_width = 612, page_height = 792, page_content = b,
                                         page_images = []\<rparr>], embedded = []\<rparr>),
     rasterize = (\<lambda>c ops. Some [137, 80, 78, 71]),
     embedPng = (\<lambda>b. if b = [] then None else Some b),
     savePdf = (\<lambda>d. Some (concat (map page_content (pages d)) @ concat (embedded d)))\<rparr>"

text \<open>
  The page index and canvas a pointer event lands on, when the handler gets past its
  guards: the target is inside a page whose label gives an index other than \<open>-1\<close>, and
  that index has a canvas and a context.
\<close>

definition landsOn :: "mouse_event \<Rightarrow> editor \<Rightarrow> (int \<times> canvas) option" where
  "landsOn event s =
     (case ev_page event of
        None \<Rightarrow> None
      | Some ariaLabel \<Rightarrow>
          (case editorPageIndex ariaLabel of
             None \<Rightarrow> None
           | Some pageIndex \<Rightarrow>
               if pageIndex = - 1 then None
               else (case map_of (canvasRefs s) pageIndex of
                       None \<Rightarrow> None
                     | Some canvas \<Rightarrow>
                         (case map_of (contextRefs s) pageIndex of
                            None \<Rightarrow> None
                          | Some context \<Rightarrow> Some (pageIndex, canvas)))))"

text \<open>The canvas of the one-page fixture.\<close>

definition sampleCanvas :: "tool \<Rightarrow> canvas" where
  "sampleCanvas t = \<lparr>cv_width = 100, cv_height = 200, cv_position = ''absolute'',
     cv_top = ''0'', cv_left = ''0'', cv_zIndex = ''5'',
     cv_pointerEvents = (if isDrawingTool t then ''auto'' else ''none''),
     cv_cursor = canvasCursor t, cv_parentElement = Some (PageLayer 7)\<rparr>"

text \<open>
  Gesture fixtures on the one-page editor: a blur drag just pressed, an erase drag after
  its first move, a finished erase stroke from (0,0) to (5,5), and the erase gesture
  press (10,10), move (20,10), move (20,20), release.
\<close>

definition dragging :: editor where
  "dragging = handleToolInteraction (pointerAt MouseDown ''Page 1'' 10 10) (onePage Tool_blur)"

definition erasing :: editor where
  "erasing = handleToolInteraction (pointerAt MouseMove ''Page 1'' 20 10)
     (handleToolInteraction (pointerAt MouseDown ''Page 1'' 10 10) (onePage Tool_erase))"

definition erasedOnce :: editor where
  "erasedOnce = fold handleToolInteraction
     [pointerAt MouseDown ''Page 1'' 0 0, pointerAt MouseMove ''Page 1'' 5 5,
      pointerAt MouseUp ''Page 1'' 5 5] (onePage Tool_erase)"

definition eraseGesture :: "mouse_event list" where
  "eraseGesture = [pointerAt MouseDown ''Page 1'' 10 10, pointerAt MouseMove ''Page 1'' 20 10,
     pointerAt MouseMove ''Page 1'' 20 20, pointerAt MouseUp ''Page 1'' 20 20]"

text \<open>
  A point, an annotation's coordinates, and all coordinates the editor holds (every stored
  annotation and the gesture's start point) lie in the box \<open>[0,W] \<times> [0,H]\<close>; every
  canvas is at most \<open>W\<close> by \<open>H\<close> pixels.
\<close>

definition pointWithin :: "real \<Rightarrow> real \<Rightarrow> point \<Rightarrow> bool" where
  "pointWithin W H pt \<longleftrightarrow> 0 \<le> fst pt \<and> fst pt \<le> W \<and> 0 \<le> snd pt \<and> snd pt \<le> H"

definition annotationWithin :: "real \<Rightarrow> real \<Rightarrow> annotation \<Rightarrow> bool" where
  "annotationWithin W H a =
     (case ann_data a of
        BlurData startX startY endX endY \<Rightarrow>
          pointWithin W H (startX, startY) \<and> pointWithin W H (endX, endY)
      | EraseData path \<Rightarrow> list_all (pointWithin W H) path
      | TextData x y text \<Rightarrow> pointWithin W H (x, y))"

definition coordsWithin :: "real \<Rightarrow> real \<Rightarrow> editor \<Rightarrow> bool" where
  "coordsWithin W H s \<longleftrightarrow>
     list_all (\<lambda>(i, anns). list_all (annotationWithin W H) anns) (annotationsRef s) \<and>
     (case startCoordsRef s of None \<Rightarrow> True | Some pt \<Rightarrow> pointWithin W H pt)"

definition surfacesWithin :: "real \<Rightarrow> real \<Rightarrow> editor \<Rightarrow> bool" where
  "surfacesWithin W H s \<longleftrightarrow>
     list_all (\<lambda>(i, cv). real (cv_width cv) \<le> W \<and> real (cv_height cv) \<le> H) (canvasRefs s)"

text \<open>
  The states of a session in which every pointer event is handled while all canvases are
  at most \<open>W\<close> by \<open>H\<close> pixels.
\<close>

inductive reachableWithin :: "real \<Rightarrow> real \<Rightarrow> editor \<Rightarrow> bool" for W H where
  mountedW: "reachableWithin W H (initialEditor d)"
| registryW: "reachableWithin W H s \<Longrightarrow> reachableWithin W H (handlePageContainerRefsChange refs s)"
| effectW: "reachableWithin W H s \<Longrightarrow> reachableWithin W H (canvasLifecycleEffect getContext s)"
| toolChangeW: "reachableWithin W H s \<Longrightarrow> reachableWithin W H (handleToolChange t s)"
| interactionW: "reachableWithin W H s \<Longrightarrow> surfacesWithin W H s \<Longrightarrow>
    reachableWithin W H (handleToolInteraction event s)"
| mouseLeaveW: "reachableWithin W H s \<Longrightarrow> reachableWithin W H (handleMouseLeave s)"
| rendererW: "reachableWithin W H s \<Longrightarrow> reachableWithin W H (s\<lparr>document := d\<rparr>)"

text \<open>
  A two-page fixture whose second page (index 1, element 8) is 50 pixels wide, with the
  blur tool selected, and a blur drag pressed on page 1 at (80,10) and released on page 2
  at (10,30).
\<close>

definition twoSizes :: "nat \<Rightarrow> page_element" where
  "twoSizes element = (if element = 8 then samplePage\<lparr>offsetWidth := 50\<rparr> else samplePage)"

definition twoPages :: editor where
  "twoPages = canvasLifecycleEffect (\<lambda>i. True)
     (handleToolChange Tool_blur
        (handlePageContainerRefsChange [(0, 7), (1, 8)] (initialEditor twoSizes)))"

definition crossPageDrag :: editor where
  "crossPageDrag = handleToolInteraction (pointerAt MouseUp ''Page 2'' 10 30)
     (handleToolInteraction (pointerAt MouseDown ''Page 1'' 80 10) twoPages)"

text \<open>
  A page whose left edge is at the viewport offset written \<^verbatim>\<open>0.1\<close> (the double nearest
  to one tenth), with a press at \<^verbatim>\<open>clientX = 1\<close> and a release at \<^verbatim>\<open>clientX = 6\<close> on it.
\<close>

definition tenth :: real where
  "tenth = roundDouble (1 / 10)"

definition offsetPress :: mouse_event where
  "offsetPress = (pointerAt MouseDown ''Page 1'' 1 10)\<lparr>rect_left := tenth\<rparr>"

definition offsetRelease :: mouse_event where
  "offsetRelease = (pointerAt MouseUp ''Page 1'' 6 10)\<lparr>rect_left := tenth\<rparr>"

text \<open>
  Every canvas has its 2D context, and annotation sequences exist only for pages that
  have a canvas. This holds when the editor is mounted and is kept by every handler as
  long as no \<^verbatim>\<open>getContext\<close> call fails.
\<close>

definition surfacesComplete :: "editor \<Rightarrow> bool" where
  "surfacesComplete s \<longleftrightarrow>
     set (map fst (contextRefs s)) = set (map fst (canvasRefs s)) \<and>
     set (map fst (annotationsRef s)) \<subseteq> set (map fst (canvasRefs s))"

text \<open>A registry update followed by the run of the canvas lifecycle effect.\<close>

definition syncRegistry :: "(int \<Rightarrow> bool) \<Rightarrow> (int \<times> nat) list \<Rightarrow> editor \<Rightarrow> editor" where
  "syncRegistry getContext refs s =
     canvasLifecycleEffect getContext (handlePageContainerRefsChange refs s)"

text \<open>
  An element takes pointer input unless its \<^verbatim>\<open>pointer-events\<close> is \<^verbatim>\<open>none\<close>; the empty
  inline style leaves the default, which accepts.
\<close>

definition acceptsPointerInput :: "string \<Rightarrow> bool" where
  "acceptsPointerInput pointerEvents \<longleftrightarrow> pointerEvents \<noteq> ''none''"

section \<open>Facts about double rounding\<close>

declare floorLog2.simps [simp del]

lemma floorLog2_bounds:
  "0 < x \<Longrightarrow> 2 powr of_int (floorLog2 x) \<le> x \<and> x < 2 powr (of_int (floorLog2 x) + 1)"
proof (induction x rule: floorLog2.induct)
  case (1 x)
  show ?case
  proof (cases "x < 1")
    case True
    with "1.prems" have ih: "2 powr of_int (floorLog2 (2 * x)) \<le> 2 * x \<and>
        2 * x < 2 powr (of_int (floorLog2 (2 * x)) + 1)"
      using "1.IH"(1) by simp
    have e: "floorLog2 x = floorLog2 (2 * x) - 1"
      using True "1.prems" by (subst floorLog2.simps) simp
    have "(2::real) powr (of_int (floorLog2 (2 * x)) - 1) = 2 powr of_int (floorLog2 (2 * x)) / 2"
      by (simp add: powr_diff)
    moreover have "(2::real) powr (of_int (floorLog2 (2 * x)) + 1) = 2 powr of_int (floorLog2 (2 * x)) * 2"
      by (simp add: powr_add)
    ultimately show ?thesis using ih by (simp add: e)
  next
    case False
    show ?thesis
    proof (cases "2 \<le> x")
      case True
      with False "1.prems" have ih: "2 powr of_int (floorLog2 (x / 2)) \<le> x / 2 \<and>
          x / 2 < 2 powr (of_int (floorLog2 (x / 2)) + 1)"
        using "1.IH"(2) by simp
      have e: "floorLog2 x = floorLog2 (x / 2) + 1"
        using True False "1.prems" by (subst floorLog2.simps) simp
      have "(2::real) powr (of_int (floorLog2 (x / 2)) + 1) = 2 powr of_int (floorLog2 (x / 2)) * 2"
        "(2::real) powr (of_int (floorLog2 (x / 2)) + 1 + 1) = 2 powr of_int (floorLog2 (x / 2)) * 2 * 2"
        by (simp_all add: powr_add)
      then show ?thesis using ih by (simp add: e)
    next
      case nt: False
      have "floorLog2 x = 0"
        using nt False "1.prems" by (subst floorLog2.simps) simp
      with nt False show ?thesis by simp
    qed
  qed
qed

lemma floorLog2_le:
  assumes "0 < x" "x < 2 ^ n"
  shows "floorLog2 x < int n"
proof -
  have "(2::real) powr of_int (floorLog2 x) < 2 ^ n"
    using floorLog2_bounds [OF assms(1)] assms(2) by simp
  also have "(2::real) ^ n = 2 powr of_int (int n)"
    by (simp add: powr_realpow)
  finally have "real_of_int (floorLog2 x) < real_of_int (int n)"
    by (simp only: powr_less_cancel_iff)
  then show ?thesis by (simp only: of_int_less_iff)
qed

lemma floorLog2_nonneg:
  assumes "1 \<le> x"
  shows "0 \<le> floorLog2 x"
proof -
  have "(2::real) powr 0 < 2 powr (of_int (floorLog2 x) + 1)"
    using floorLog2_bounds [of x] assms by simp
  then have "(0::real) < of_int (floorLog2 x) + 1" by (simp only: powr_less_cancel_iff)
  then have "(0::real) < of_int (floorLog2 x + 1)" by simp
  then have "0 < floorLog2 x + 1" by (simp only: of_int_0_less_iff)
  then show ?thesis by simp
qed

lemma roundHalfEven_int [simp]: "roundHalfEven (of_int m) = m"
  by (simp add: roundHalfEven_def)

lemma roundHalfEven_bound:
  assumes "\<bar>y\<bar> \<le> of_int N"
  shows "\<bar>roundHalfEven y\<bar> \<le> N"
proof -
  have "y \<le> of_int N" "- of_int N \<le> y" using assms by simp_all
  then have f: "\<lfloor>y\<rfloor> \<le> N" "- N \<le> \<lfloor>y\<rfloor>"
    by (simp_all add: floor_le_iff le_floor_iff)
  have "roundHalfEven y = \<lfloor>y\<rfloor> \<or> (roundHalfEven y = \<lfloor>y\<rfloor> + 1 \<and> 1 / 2 \<le> y - of_int \<lfloor>y\<rfloor>)"
    by (auto simp add: roundHalfEven_def Let_def)
  then show ?thesis
  proof
    assume "roundHalfEven y = \<lfloor>y\<rfloor>"
    with f show ?thesis by simp
  next
    assume a: "roundHalfEven y = \<lfloor>y\<rfloor> + 1 \<and> 1 / 2 \<le> y - of_int \<lfloor>y\<rfloor>"
    then have "of_int \<lfloor>y\<rfloor> < y" by simp
    with \<open>y \<le> of_int N\<close> have "\<lfloor>y\<rfloor> < N" by linarith
    with a f show ?thesis by simp
  qed
qed

lemma ulpOf_small:
  "e \<le> 52 \<Longrightarrow> ulpOf e = 1 / 2 ^ nat (52 - max e (- 1022))"
  by (auto simp add: ulpOf_def Let_def max_def)

lemma roundDouble_of_int:
  assumes "\<bar>n\<bar> < 2 ^ 53"
  shows "roundDouble (of_int n) = of_int n"
proof (cases "n = 0")
  case True
  then show ?thesis by (simp add: roundDouble_def)
next
  case False
  let ?x = "of_int n :: real"
  let ?e = "floorLog2 \<bar>?x\<bar>"
  have one: "1 \<le> \<bar>?x\<bar>" using False by (simp flip: of_int_abs)
  have "\<bar>?x\<bar> < 2 ^ 53"
    using assms by (simp flip: of_int_abs)
  then have "?e < 53" using floorLog2_le [of "\<bar>?x\<bar>" 53] one by simp
  moreover have "0 \<le> ?e" using one by (rule floorLog2_nonneg)
  ultimately have q: "ulpOf ?e = 1 / 2 ^ nat (52 - ?e)"
    by (simp add: ulpOf_small max_def)
  have "?x / ulpOf ?e = of_int (n * 2 ^ nat (52 - ?e))"
    by (simp add: q)
  then have "roundHalfEven (?x / ulpOf ?e) = n * 2 ^ nat (52 - ?e)"
    by (simp only: roundHalfEven_int)
  then show ?thesis
    using False by (simp add: roundDouble_def Let_def q)
qed

lemma roundDouble_numeral [simp]:
  "numeral k < (2 ^ 53 :: int) \<Longrightarrow> roundDouble (numeral k) = numeral k"
  "numeral k < (2 ^ 53 :: int) \<Longrightarrow> roundDouble (- numeral k) = - numeral k"
  "roundDouble 0 = 0" "roundDouble 1 = 1"
  using roundDouble_of_int [of "numeral k"] roundDouble_of_int [of "- numeral k"]
    roundDouble_of_int [of 1]
  by (simp_all add: roundDouble_def)

lemma roundDouble_within_5:
  assumes "\<bar>x\<bar> \<le> 5"
  shows "\<bar>roundDouble x\<bar> \<le> 5"
proof (cases "x = 0")
  case True
  then show ?thesis by (simp add: roundDouble_def)
next
  case False
  let ?e = "floorLog2 \<bar>x\<bar>"
  let ?m = "nat (52 - max ?e (- 1022))"
  have "\<bar>x\<bar> < 2 ^ 3" using assms by simp
  then have e: "?e < 3" using floorLog2_le [of "\<bar>x\<bar>" 3] False by simp
  then have q: "ulpOf ?e = 1 / 2 ^ ?m"
    by (simp add: ulpOf_small)
  have "\<bar>x / ulpOf ?e\<bar> = \<bar>x\<bar> * 2 ^ ?m"
    by (simp add: q abs_mult)
  also have "\<dots> \<le> 5 * 2 ^ ?m"
    using assms by simp
  also have "\<dots> = of_int (5 * 2 ^ ?m)" by simp
  finally have "\<bar>roundHalfEven (x / ulpOf ?e)\<bar> \<le> 5 * 2 ^ ?m"
    by (rule roundHalfEven_bound)
  then have "\<bar>of_int (roundHalfEven (x / ulpOf ?e)) :: real\<bar> \<le> of_int (5 * 2 ^ ?m)"
    by (simp only: of_int_abs [symmetric] of_int_le_iff)
  then have "\<bar>of_int (roundHalfEven (x / ulpOf ?e)) * ulpOf ?e\<bar> \<le> 5"
    by (simp add: q abs_mult field_simps)
  then show ?thesis
    using False by (simp add: roundDouble_def Let_def)
qed

lemmas double_defs = jsMinus_def roundDouble_def floorLog2.simps ulpOf_def roundHalfEven_def

section \<open>Facts about the compositor\<close>

declare pollForViewerAndAttachObserver.simps [simp del]

lemma map_of_key: "map_of al k = Some v \<Longrightarrow> k \<in> fst ` set al"
  by (metis domI dom_map_of_conv_image_fst)

lemma fold_invariant:
  "P s \<Longrightarrow> (\<And>x s. P s \<Longrightarrow> P (f x s)) \<Longrightarrow> P (fold f xs s)"
  by (induction xs arbitrary: s) simp_all

lemma list_all_update:
  "P (k, v) \<Longrightarrow> list_all P al \<Longrightarrow> list_all P (AList.update k v al)"
  by (induction al) auto

lemma list_all_delete: "list_all P al \<Longrightarrow> list_all P (AList.delete k al)"
  by (induction al) auto

lemma list_all_map_of: "list_all P al \<Longrightarrow> map_of al k = Some v \<Longrightarrow> P (k, v)"
  by (metis list_all_iff map_of_SomeD)

lemma drawOnContext_reset:
  "filter_attr c = ''none'' \<Longrightarrow>
     filter_attr (drawOnContext c a) = ''none'' \<and> drawn (drawOnContext c a) = drawn c @ [rasterOf a]"
  by (simp add: drawOnContext_def drawBlurOverlay_def strokePath_def drawText_def rasterOf_def
      Let_def split: ann_data.splits)

lemma replay_reset:
  "filter_attr c = ''none'' \<Longrightarrow>
     filter_attr (fold (\<lambda>a c. drawOnContext c a) anns c) = ''none'' \<and>
     drawn (fold (\<lambda>a c. drawOnContext c a) anns c) = drawn c @ map rasterOf anns"
  by (induction anns arbitrary: c) (simp_all add: drawOnContext_reset)

lemma drawAnnotation_frame [simp]:
  "activeTool (drawAnnotation p a s) = activeTool s"
  "pageContainerRefs (drawAnnotation p a s) = pageContainerRefs s"
  "canvasRefs (drawAnnotation p a s) = canvasRefs s"
  "annotationsRef (drawAnnotation p a s) = annotationsRef s"
  "isDrawingRef (drawAnnotation p a s) = isDrawingRef s"
  "startCoordsRef (drawAnnotation p a s) = startCoordsRef s"
  "currentCoordsRef (drawAnnotation p a s) = currentCoordsRef s"
  "document (drawAnnotation p a s) = document s"
  by (simp_all add: drawAnnotation_def split: option.splits)

lemma fold_drawAnnotation:
  "map_of (contextRefs s) p = Some c \<Longrightarrow> map_of (canvasRefs s) p = Some cv \<Longrightarrow>
     fold (drawAnnotation p) anns s =
       s\<lparr>contextRefs := AList.update p (fold (\<lambda>a c. drawOnContext c a) anns c) (contextRefs s)\<rparr>"
proof (induction anns arbitrary: s c)
  case Nil
  then show ?case by (simp add: AList.update_triv)
next
  case (Cons a anns)
  let ?s = "drawAnnotation p a s"
  have s: "?s = s\<lparr>contextRefs := AList.update p (drawOnContext c a) (contextRefs s)\<rparr>"
    using Cons.prems by (simp add: drawAnnotation_def)
  have "map_of (contextRefs ?s) p = Some (drawOnContext c a)"
    by (simp add: s AList.update_conv')
  moreover have "map_of (canvasRefs ?s) p = Some cv"
    using Cons.prems by simp
  ultimately show ?case
    using Cons.IH [of ?s "drawOnContext c a"] by (simp add: s)
qed

lemma redraw_unfold:
  assumes c: "map_of (contextRefs s) p = Some c" and cv: "map_of (canvasRefs s) p = Some cv"
  shows "redrawPageAnnotations p s =
       s\<lparr>contextRefs := AList.update p
           (fold (\<lambda>a c. drawOnContext c a) (pageAnnotationsOf s p) (c\<lparr>drawn := []\<rparr>))
           (contextRefs s)\<rparr>"
proof -
  let ?s = "s\<lparr>contextRefs := AList.update p (c\<lparr>drawn := []\<rparr>) (contextRefs s)\<rparr>"
  have "map_of (contextRefs ?s) p = Some (c\<lparr>drawn := []\<rparr>)" "map_of (canvasRefs ?s) p = Some cv"
    using cv by (simp_all add: AList.update_conv')
  from fold_drawAnnotation [OF this, of "pageAnnotationsOf s p"] show ?thesis
    using c cv by (simp add: redrawPageAnnotations_def)
qed

lemma redraw_noop:
  "map_of (contextRefs s) p = None \<or> map_of (canvasRefs s) p = None \<Longrightarrow>
     redrawPageAnnotations p s = s"
  by (auto simp add: redrawPageAnnotations_def split: option.splits)

lemma redraw_frame [simp]:
  "activeTool (redrawPageAnnotations p s) = activeTool s"
  "pageContainerRefs (redrawPageAnnotations p s) = pageContainerRefs s"
  "canvasRefs (redrawPageAnnotations p s) = canvasRefs s"
  "annotationsRef (redrawPageAnnotations p s) = annotationsRef s"
  "isDrawingRef (redrawPageAnnotations p s) = isDrawingRef s"
  "startCoordsRef (redrawPageAnnotations p s) = startCoordsRef s"
  "currentCoordsRef (redrawPageAnnotations p s) = currentCoordsRef s"
  "document (redrawPageAnnotations p s) = document s"
  by (cases "map_of (contextRefs s) p"; cases "map_of (canvasRefs s) p";
      simp add: redraw_noop redraw_unfold)+

lemma redraw_context_keys [simp]:
  "fst ` set (contextRefs (redrawPageAnnotations p s)) = fst ` set (contextRefs s)"
  by (cases "map_of (contextRefs s) p"; cases "map_of (canvasRefs s) p")
     (auto simp add: redraw_noop redraw_unfold AList.dom_update dest: map_of_key)

lemma redraw_pageAnnotationsOf [simp]:
  "pageAnnotationsOf (redrawPageAnnotations p s) q = pageAnnotationsOf s q"
  by (simp add: pageAnnotationsOf_def)

lemma fold_redraw_frame [simp]:
  "activeTool (fold redrawPageAnnotations ps s) = activeTool s"
  "pageContainerRefs (fold redrawPageAnnotations ps s) = pageContainerRefs s"
  "canvasRefs (fold redrawPageAnnotations ps s) = canvasRefs s"
  "annotationsRef (fold redrawPageAnnotations ps s) = annotationsRef s"
  "isDrawingRef (fold redrawPageAnnotations ps s) = isDrawingRef s"
  "startCoordsRef (fold redrawPageAnnotations ps s) = startCoordsRef s"
  "currentCoordsRef (fold redrawPageAnnotations ps s) = currentCoordsRef s"
  "document (fold redrawPageAnnotations ps s) = document s"
  by (induction ps arbitrary: s) simp_all

lemma redraw_pixels:
  assumes "map_of (contextRefs s) p = Some c" "map_of (canvasRefs s) p = Some cv"
    "filter_attr c = ''none''"
  shows "pixelsOf (redrawPageAnnotations p s) p = Some (map rasterOf (pageAnnotationsOf s p))"
  using assms replay_reset [of "c\<lparr>drawn := []\<rparr>" "pageAnnotationsOf s p"]
  by (simp add: redraw_unfold pixelsOf_def AList.update_conv')

lemma filtersReset_redraw: "filtersReset s \<Longrightarrow> filtersReset (redrawPageAnnotations p s)"
proof (cases "map_of (contextRefs s) p"; cases "map_of (canvasRefs s) p")
  fix c cv
  assume r: "filtersReset s" and c: "map_of (contextRefs s) p = Some c"
    and cv: "map_of (canvasRefs s) p = Some cv"
  have "filter_attr c = ''none''"
    using list_all_map_of [OF r [unfolded filtersReset_def] c] by simp
  then have "filter_attr (fold (\<lambda>a c. drawOnContext c a) (pageAnnotationsOf s p) (c\<lparr>drawn := []\<rparr>)) = ''none''"
    using replay_reset [of "c\<lparr>drawn := []\<rparr>"] by simp
  then show "filtersReset (redrawPageAnnotations p s)"
    using r by (simp add: redraw_unfold [OF c cv] filtersReset_def list_all_update)
qed (simp_all add: redraw_noop)

lemma filtersReset_fold_redraw:
  "filtersReset s \<Longrightarrow> filtersReset (fold redrawPageAnnotations ps s)"
  by (erule fold_invariant [where P = filtersReset]) (rule filtersReset_redraw)

lemma filtersReset_cong:
  "contextRefs s' = contextRefs s \<Longrightarrow> filtersReset s' = filtersReset s"
  by (simp add: filtersReset_def)

lemma filtersReset_set_default:
  "filtersReset s \<Longrightarrow> contextRefs s' = AList.update p defaultContext (contextRefs s) \<Longrightarrow>
     filtersReset s'"
  by (simp add: filtersReset_def list_all_update defaultContext_def)

lemma filtersReset_overlayCanvas:
  assumes "filtersReset s"
  shows "filtersReset (overlayCanvas p el s)"
proof (cases "map_of (canvasRefs s) p")
  case None
  then show ?thesis using assms by (simp add: overlayCanvas_def)
next
  case (Some cv)
  have "filtersReset (s\<lparr>canvasRefs := cvs, contextRefs :=
      (case map_of (contextRefs s) p of None \<Rightarrow> contextRefs s
       | Some context \<Rightarrow> AList.update p defaultContext (contextRefs s))\<rparr>)" for cvs
  proof (cases "map_of (contextRefs s) p")
    case None
    then show ?thesis using assms by (simp add: filtersReset_def)
  next
    case (Some c)
    then show ?thesis by (intro filtersReset_set_default [OF assms, of _ p]) simp
  qed
  then show ?thesis
    using Some by (simp add: overlayCanvas_def Let_def filtersReset_redraw)
qed

lemma filtersReset_manageCanvas:
  assumes "filtersReset s"
  shows "filtersReset (manageCanvas g p s)"
proof (cases "map_of (pageContainerRefs s) p")
  case None
  then show ?thesis using assms by (simp add: manageCanvas_def)
next
  case (Some el)
  note el = Some
  show ?thesis
  proof (cases "map_of (canvasRefs s) p")
    case None
    have a: "filtersReset (s\<lparr>canvasRefs := cvs\<rparr>)" for cvs
      using assms by (simp add: filtersReset_def)
    have "filtersReset (s\<lparr>canvasRefs := cvs, contextRefs := AList.update p defaultContext (contextRefs s)\<rparr>)" for cvs
      by (intro filtersReset_set_default [OF assms, of _ p]) simp
    then have "filtersReset (overlayCanvas p pe
        (s\<lparr>canvasRefs := cvs, contextRefs := AList.update p defaultContext (contextRefs s)\<rparr>))" for pe cvs
      by (rule filtersReset_overlayCanvas)
    with None el a show ?thesis
      by (simp add: manageCanvas_def Let_def)
  next
    case (Some cv)
    have "filtersReset (s\<lparr>canvasRefs := cvs\<rparr>)" for cvs
      using assms by (simp add: filtersReset_def)
    then have "filtersReset (overlayCanvas p pe (s\<lparr>canvasRefs := cvs\<rparr>))" for pe cvs
      by (rule filtersReset_overlayCanvas)
    with Some el assms show ?thesis
      by (simp add: manageCanvas_def Let_def filtersReset_overlayCanvas)
  qed
qed

lemma filtersReset_removeCanvas:
  "filtersReset s \<Longrightarrow> filtersReset (removeCanvas p s)"
  by (simp add: removeCanvas_def filtersReset_def list_all_delete split: option.splits)

lemma filtersReset_effect:
  assumes "filtersReset s"
  shows "filtersReset (canvasLifecycleEffect g s)"
proof -
  have "filtersReset (fold (manageCanvas g) ks s)" for ks
    using assms by (rule fold_invariant [where P = filtersReset]) (rule filtersReset_manageCanvas)
  then have "filtersReset (fold removeCanvas as (fold (manageCanvas g) ks s))" for ks as
    by (rule fold_invariant [where P = filtersReset]) (rule filtersReset_removeCanvas)
  then show ?thesis by (simp add: canvasLifecycleEffect_def Let_def)
qed

lemma applyToolToCanvas_frame [simp]:
  "activeTool (applyToolToCanvas a b c p s) = activeTool s"
  "pageContainerRefs (applyToolToCanvas a b c p s) = pageContainerRefs s"
  "contextRefs (applyToolToCanvas a b c p s) = contextRefs s"
  "annotationsRef (applyToolToCanvas a b c p s) = annotationsRef s"
  "isDrawingRef (applyToolToCanvas a b c p s) = isDrawingRef s"
  "startCoordsRef (applyToolToCanvas a b c p s) = startCoordsRef s"
  "currentCoordsRef (applyToolToCanvas a b c p s) = currentCoordsRef s"
  by (simp_all add: applyToolToCanvas_def Let_def split: option.splits)

lemma fold_applyToolToCanvas_frame [simp]:
  "activeTool (fold (applyToolToCanvas a b c) ps s) = activeTool s"
  "pageContainerRefs (fold (applyToolToCanvas a b c) ps s) = pageContainerRefs s"
  "contextRefs (fold (applyToolToCanvas a b c) ps s) = contextRefs s"
  "annotationsRef (fold (applyToolToCanvas a b c) ps s) = annotationsRef s"
  "isDrawingRef (fold (applyToolToCanvas a b c) ps s) = isDrawingRef s"
  "startCoordsRef (fold (applyToolToCanvas a b c) ps s) = startCoordsRef s"
  "currentCoordsRef (fold (applyToolToCanvas a b c) ps s) = currentCoordsRef s"
  by (induction ps arbitrary: s) simp_all

lemma handleToolChange_frame [simp]:
  "activeTool (handleToolChange t s) = t"
  "pageContainerRefs (handleToolChange t s) = pageContainerRefs s"
  "contextRefs (handleToolChange t s) = contextRefs s"
  "annotationsRef (handleToolChange t s) = annotationsRef s"
  by (simp_all add: handleToolChange_def Let_def)

lemma filtersReset_handleMouseMove:
  assumes r: "filtersReset s"
  shows "filtersReset (handleMouseMove p b u s)"
proof -
  let ?s1 = "redrawPageAnnotations p (s\<lparr>currentCoordsRef := Some b\<rparr>)"
  have "filtersReset (s\<lparr>currentCoordsRef := Some b\<rparr>)"
    using r by (simp add: filtersReset_def)
  then have r1: "filtersReset ?s1"
    by (rule filtersReset_redraw)
  have "filtersReset (eraseMove p st b u ?s1)" for st
    using r1 by (simp add: filtersReset_def eraseMove_def Let_def split: list.splits ann_data.splits)
  then have e: "filtersReset (redrawPageAnnotations p (eraseMove p st b u ?s1))" for st
    by (rule filtersReset_redraw)
  have b: "filtersReset (?s1\<lparr>contextRefs := AList.update p (drawBlurOverlay c x1 y1 x2 y2) (contextRefs ?s1)\<rparr>)"
    for c x1 y1 x2 y2
    using r1 by (simp add: filtersReset_def list_all_update drawBlurOverlay_def Let_def)
  show ?thesis
    unfolding handleMouseMove_def Let_def
    using r1 e b by (simp split: option.splits)
qed

lemma filtersReset_handleMouseUp:
  assumes "filtersReset s"
  shows "filtersReset (handleMouseUp p b r u s)"
proof -
  have "filtersReset (s'\<lparr>startCoordsRef := None, currentCoordsRef := None\<rparr>)"
    if "contextRefs s' = contextRefs s" for s'
    using assms that by (simp add: filtersReset_def)
  then show ?thesis
    unfolding handleMouseUp_def Let_def
    by (intro filtersReset_redraw) (simp split: option.splits)
qed

lemma filtersReset_interaction:
  assumes "filtersReset s"
  shows "filtersReset (handleToolInteraction e s)"
proof -
  have "filtersReset (s\<lparr>isDrawingRef := True, startCoordsRef := x, currentCoordsRef := y\<rparr>)" for x y
    using assms by (simp add: filtersReset_def)
  then show ?thesis
    using assms filtersReset_handleMouseMove [OF assms] filtersReset_handleMouseUp [OF assms]
    by (simp add: handleToolInteraction_def Let_def split: option.splits)
qed

lemma reachable_filtersReset: "reachable s \<Longrightarrow> filtersReset s"
proof (induction rule: reachable.induct)
  case (mounted d)
  show ?case by (simp add: filtersReset_def initialEditor_def)
next
  case (registry s refs)
  then show ?case by (simp add: filtersReset_def handlePageContainerRefsChange_def)
next
  case (effect s getContext)
  from effect.IH show ?case by (rule filtersReset_effect)
next
  case (toolChange s t)
  then show ?case by (simp add: filtersReset_def)
next
  case (interaction s event)
  from interaction.IH show ?case by (rule filtersReset_interaction)
next
  case (mouseLeave s)
  have "filtersReset (s\<lparr>isDrawingRef := False, startCoordsRef := None, currentCoordsRef := None\<rparr>)"
    using mouseLeave.IH by (simp add: filtersReset_def)
  then have "filtersReset (fold redrawPageAnnotations ps
      (s\<lparr>isDrawingRef := False, startCoordsRef := None, currentCoordsRef := None\<rparr>))" for ps
    by (rule filtersReset_fold_redraw)
  with mouseLeave.IH show ?case
    by (simp add: handleMouseLeave_def)
next
  case (renderer s d)
  then show ?case by (simp add: filtersReset_def)
qed

section \<open>The fixtures, evaluated\<close>

lemma pageIndex_Page1 [simp]: "editorPageIndex (Some ''Page 1'') = Some 0"
  by (simp add: editorPageIndex_def parseInt_def isWhiteSpace_def digitOf_def digitsValue_def Let_def)

lemma onePage_eval:
  "onePage t = \<lparr>activeTool = t, pageContainerRefs = [(0, 7)],
     canvasRefs = [(0, \<lparr>cv_width = 100, cv_height = 200, cv_position = ''absolute'',
         cv_top = ''0'', cv_left = ''0'', cv_zIndex = ''5'',
         cv_pointerEvents = (if isDrawingTool t then ''auto'' else ''none''), cv_cursor = canvasCursor t,
         cv_parentElement = Some (PageLayer 7)\<rparr>)],
     contextRefs = [(0, defaultContext)], annotationsRef = [], isDrawingRef = False,
     startCoordsRef = None, currentCoordsRef = None, document = sampleDocument\<rparr>"
  by (simp add: onePage_def canvasLifecycleEffect_def handleToolChange_def
      handlePageContainerRefsChange_def initialEditor_def manageCanvas_def overlayCanvas_def
      redrawPageAnnotations_def pageAnnotationsOf_def removeCanvas_def createCanvas_def
      sampleDocument_def samplePage_def defaultContext_def Let_def)

lemma pageIndex_Page2 [simp]: "editorPageIndex (Some ''Page 2'') = Some 1"
  by (simp add: editorPageIndex_def parseInt_def isWhiteSpace_def digitOf_def digitsValue_def Let_def)

lemmas eval_defs = handleToolInteraction_def pointerAt_def boundedCanvas_def jsMinus_def
  handleMouseUp_def
  handleMouseMove_def eraseMove_def newAnnotationOnRelease_def pageAnnotationsOf_def Let_def
  redrawPageAnnotations_def drawAnnotation_def drawOnContext_def drawBlurOverlay_def
  strokePath_def drawText_def defaultContext_def isDrawingTool_def canvasCursor_def

lemma onePage_landsOn [simp]:
  "landsOn (pointerAt t ''Page 1'' x y) (onePage u) = Some (0, sampleCanvas u)"
  by (simp add: landsOn_def pointerAt_def onePage_eval sampleCanvas_def)

lemma blurred_eval:
  "blurred = \<lparr>activeTool = Tool_blur, pageContainerRefs = [(0, 7)],
     canvasRefs = [(0, \<lparr>cv_width = 100, cv_height = 200, cv_position = ''absolute'',
         cv_top = ''0'', cv_left = ''0'', cv_zIndex = ''5'', cv_pointerEvents = ''auto'',
         cv_cursor = ''crosshair'', cv_parentElement = Some (PageLayer 7)\<rparr>)],
     contextRefs = [(0, \<lparr>fillStyle = ''rgba(50, 50, 50, 0.85)'', strokeStyle = ''#000000'',
         lineWidth = 1, lineCap = ''butt'', font = ''10px sans-serif'', filter_attr = ''none'',
         globalCompositeOperation = ''source-over'',
         drawn = [FillRect 0 0 50 50 ''rgba(50, 50, 50, 0.85)'' ''blur(4px)'' ''source-over'']\<rparr>)],
     annotationsRef = [(0, [\<lparr>ann_id = ''id'', ann_pageIndex = 0,
         ann_data = BlurData 0 0 50 50\<rparr>])],
     isDrawingRef = False, startCoordsRef = None, currentCoordsRef = None,
     document = sampleDocument\<rparr>"
  by (simp add: blurred_def onePage_eval handleToolInteraction_def pointerAt_def
      boundedCanvas_def jsMinus_def handleMouseUp_def newAnnotationOnRelease_def
      pageAnnotationsOf_def
      Let_def redrawPageAnnotations_def drawAnnotation_def drawOnContext_def
      drawBlurOverlay_def defaultContext_def isDrawingTool_def canvasCursor_def)

lemma twoPages_eval:
  "twoPages = \<lparr>activeTool = Tool_blur, pageContainerRefs = [(0, 7), (1, 8)],
     canvasRefs = [(0, sampleCanvas Tool_blur), (1, (sampleCanvas Tool_blur)\<lparr>cv_width := 50,
                     cv_parentElement := Some (PageLayer 8)\<rparr>)],
     contextRefs = [(0, defaultContext), (1, defaultContext)], annotationsRef = [],
     isDrawingRef = False, startCoordsRef = None, currentCoordsRef = None,
     document = twoSizes\<rparr>"
  by (simp add: twoPages_def canvasLifecycleEffect_def handleToolChange_def
      handlePageContainerRefsChange_def initialEditor_def manageCanvas_def overlayCanvas_def
      redrawPageAnnotations_def pageAnnotationsOf_def removeCanvas_def createCanvas_def
      twoSizes_def samplePage_def sampleCanvas_def defaultContext_def Let_def)

section \<open>Redraw\<close>

lemma blurred_reachable: "reachable blurred"
  unfolding blurred_def onePage_def by (intro reachable.intros)

lemma live_lookup:
  "p \<in> liveSurfaces s \<longleftrightarrow> (\<exists>c cv. map_of (contextRefs s) p = Some c \<and> map_of (canvasRefs s) p = Some cv)"
  using map_of_eq_None_iff [of "contextRefs s" p] map_of_eq_None_iff [of "canvasRefs s" p]
  by (auto simp add: liveSurfaces_def)

text \<open>
  C8. Redraw is idempotent. In every state the editor can reach, a second
  \<open>redrawPageAnnotations\<close> of a page right after a first one leaves the page's pixels as
  the first left them; on a live surface those pixels are exactly the replay, in order,
  of the page's stored annotations on a cleared bitmap; and redrawing never changes the
  annotation store.
\<close>

theorem redraw_idempotent:
  assumes "reachable s"
  shows "pixelsOf (redrawPageAnnotations p (redrawPageAnnotations p s)) p =
           pixelsOf (redrawPageAnnotations p s) p \<and>
         (p \<in> liveSurfaces s \<longrightarrow>
            pixelsOf (redrawPageAnnotations p s) p = Some (map rasterOf (pageAnnotationsOf s p))) \<and>
         annotationsRef (redrawPageAnnotations p s) = annotationsRef s"
proof (cases "p \<in> liveSurfaces s")
  case False
  then have "map_of (contextRefs s) p = None \<or> map_of (canvasRefs s) p = None"
    by (auto simp add: live_lookup)
  then have "redrawPageAnnotations p s = s"
    by (rule redraw_noop)
  with False show ?thesis by simp
next
  case True
  then obtain c cv where c: "map_of (contextRefs s) p = Some c"
    and cv: "map_of (canvasRefs s) p = Some cv"
    by (auto simp add: live_lookup)
  let ?s = "redrawPageAnnotations p s"
  let ?c = "fold (\<lambda>a c. drawOnContext c a) (pageAnnotationsOf s p) (c\<lparr>drawn := []\<rparr>)"
  have "filtersReset s"
    using assms by (rule reachable_filtersReset)
  then have f: "filter_attr c = ''none''"
    using list_all_map_of [OF _ c] by (auto simp add: filtersReset_def)
  have c': "map_of (contextRefs ?s) p = Some ?c"
    using c cv by (simp add: redraw_unfold AList.update_conv')
  have f': "filter_attr ?c = ''none''"
    using replay_reset [of "c\<lparr>drawn := []\<rparr>"] f by simp
  have cv': "map_of (canvasRefs ?s) p = Some cv"
    using cv by simp
  show ?thesis
    using redraw_pixels [OF c' cv' f'] redraw_pixels [OF c cv f] by simp
qed

theorem redraw_idempotent_witness:
  "reachable blurred \<and>
   pixelsOf (redrawPageAnnotations 0 (redrawPageAnnotations 0 blurred)) 0 =
     Some [FillRect 0 0 50 50 ''rgba(50, 50, 50, 0.85)'' ''blur(4px)'' ''source-over'']"
proof -
  have "pixelsOf (redrawPageAnnotations 0 blurred) 0 =
      Some [FillRect 0 0 50 50 ''rgba(50, 50, 50, 0.85)'' ''blur(4px)'' ''source-over'']"
    by (simp add: blurred_def onePage_eval handleToolInteraction_def pointerAt_def
        boundedCanvas_def jsMinus_def handleMouseUp_def newAnnotationOnRelease_def
      pageAnnotationsOf_def
        Let_def redrawPageAnnotations_def drawAnnotation_def drawOnContext_def
        drawBlurOverlay_def pixelsOf_def defaultContext_def isDrawingTool_def)
  then show ?thesis
    using redraw_idempotent [OF blurred_reachable, of 0] blurred_reachable by simp
qed


section \<open>Polling for the renderer\<close>

lemma poll_gives_up:
  "attempt \<le> maxAttempts \<Longrightarrow> \<forall>j. attempt \<le> j \<and> j \<le> maxAttempts \<longrightarrow> \<not> found j \<Longrightarrow>
     pollForViewerAndAttachObserver found attempt maxAttempts =
       (GaveUp, replicate (maxAttempts - attempt) 200)"
proof (induction found attempt maxAttempts rule: pollForViewerAndAttachObserver.induct)
  case (1 found attempt maxAttempts)
  from "1.prems" have nf: "\<not> found attempt" by simp
  show ?case
  proof (cases "attempt < maxAttempts")
    case True
    have "pollForViewerAndAttachObserver found (attempt + 1) maxAttempts =
        (GaveUp, replicate (maxAttempts - (attempt + 1)) 200)"
      using "1.IH" [OF nf True] "1.prems" True by simp
    with nf True show ?thesis
      by (subst pollForViewerAndAttachObserver.simps)
         (simp add: replicate_Suc [symmetric] Suc_diff_Suc del: replicate_Suc)
  next
    case False
    with nf "1.prems" show ?thesis
      by (subst pollForViewerAndAttachObserver.simps) simp
  qed
qed

lemma poll_attaches:
  "attempt \<le> k \<Longrightarrow> k \<le> maxAttempts \<Longrightarrow> found k \<Longrightarrow>
     \<forall>j. attempt \<le> j \<and> j < k \<longrightarrow> \<not> found j \<Longrightarrow>
     pollForViewerAndAttachObserver found attempt maxAttempts =
       (ObserverAttached k, replicate (k - attempt) 200)"
proof (induction found attempt maxAttempts rule: pollForViewerAndAttachObserver.induct)
  case (1 found attempt maxAttempts)
  show ?case
  proof (cases "attempt = k")
    case True
    with "1.prems" show ?thesis
      by (subst pollForViewerAndAttachObserver.simps) simp
  next
    case False
    with "1.prems" have lt: "attempt < k" and nf: "\<not> found attempt" by simp_all
    then have lm: "attempt < maxAttempts" using "1.prems" by simp
    have "pollForViewerAndAttachObserver found (attempt + 1) maxAttempts =
        (ObserverAttached k, replicate (k - (attempt + 1)) 200)"
      using "1.IH" [OF nf lm] "1.prems" lt by simp
    with nf lm lt show ?thesis
      by (subst pollForViewerAndAttachObserver.simps)
         (simp add: replicate_Suc [symmetric] Suc_diff_Suc del: replicate_Suc)
  qed
qed

text \<open>
  C9. The search for the renderer's root element is bounded. Started with the default
  arguments it sets at most 50 timers, each of 200ms; when the root is absent at every
  one of the 51 looks (attempts 0 to 50) it gives up, having set exactly 50 timers, and
  sets no more; when the root is first present at attempt \<open>k \<le> 50\<close> the observer
  is attached at that attempt after exactly \<open>k\<close> timers and polling stops. Giving up
  is an outcome of the function, not an exception.
\<close>

theorem polling_bounded:
  "length (snd (startPolling found)) \<le> 50 \<and>
   set (snd (startPolling found)) \<subseteq> {200} \<and>
   ((\<forall>k\<le>50. \<not> found k) \<longrightarrow> startPolling found = (GaveUp, replicate 50 200)) \<and>
   (\<forall>k\<le>50. found k \<and> (\<forall>j<k. \<not> found j) \<longrightarrow>
      startPolling found = (ObserverAttached k, replicate k 200))"
proof -
  have a: "startPolling found = (GaveUp, replicate 50 200)" if "\<forall>k\<le>50. \<not> found k"
    using poll_gives_up [of 0 50 found] that by (simp add: startPolling_def)
  have b: "startPolling found = (ObserverAttached k, replicate k 200)"
    if "k \<le> 50" "found k" "\<forall>j<k. \<not> found j" for k
    using poll_attaches [of 0 k 50 found] that by (simp add: startPolling_def)
  have "length (snd (startPolling found)) \<le> 50 \<and> set (snd (startPolling found)) \<subseteq> {200}"
  proof (cases "\<forall>k\<le>50. \<not> found k")
    case True
    then show ?thesis by (simp add: a set_replicate_conv_if)
  next
    case False
    then obtain k where "k \<le> 50" "found k" by auto
    define m where "m = (LEAST k. found k)"
    have "found m" unfolding m_def using \<open>found k\<close> by (rule LeastI)
    moreover have "m \<le> k" unfolding m_def using \<open>found k\<close> by (rule Least_le)
    moreover have "\<forall>j<m. \<not> found j" unfolding m_def using not_less_Least by blast
    ultimately show ?thesis
      using b [of m] \<open>k \<le> 50\<close> by (simp add: set_replicate_conv_if)
  qed
  with a b show ?thesis by blast
qed



theorem polling_bounded_witness:
  "startPolling (\<lambda>k. False) = (GaveUp, replicate 50 200) \<and>
   startPolling (\<lambda>k. 3 \<le> k) = (ObserverAttached 3, [200, 200, 200])"
proof -
  have "startPolling (\<lambda>k. False) = (GaveUp, replicate 50 200)"
    using polling_bounded [of "\<lambda>k. False"] by simp
  moreover have "startPolling (\<lambda>k. 3 \<le> k) = (ObserverAttached 3, replicate 3 200)"
  proof -
    have "\<forall>k\<le>50. 3 \<le> k \<and> (\<forall>j<k. \<not> 3 \<le> j) \<longrightarrow>
        startPolling (\<lambda>k. 3 \<le> k) = (ObserverAttached k, replicate k 200)"
      using polling_bounded [of "\<lambda>k. 3 \<le> k"] by blast
    then have "(3::nat) \<le> 3 \<and> (\<forall>j<3. \<not> (3::nat) \<le> j) \<longrightarrow>
        startPolling (\<lambda>k. 3 \<le> k) = (ObserverAttached 3, replicate 3 200)"
      by (rule allE [where x = 3]) simp
    then show ?thesis by simp
  qed
  ultimately show ?thesis by (simp add: numeral_3_eq_3)
qed

section \<open>Export\<close>

lemma flattenPage_skips:
  "pageAnnotationsOf s (int i) = [] \<Longrightarrow> flattenPage env s i d = Some d"
  by (simp add: flattenPage_def pageAnnotationsOf_def Let_def split: option.splits)

lemma flattenPage_pages:
  assumes "flattenPage env s i d = Some d'"
  shows "length (pages d') = length (pages d) \<and> (\<forall>j. j \<noteq> i \<longrightarrow> pages d' ! j = pages d ! j)"
  using assms
  by (auto simp add: flattenPage_def Let_def split: option.splits if_splits)

lemma flattenPage_succeeds:
  "flattenPage env s i d \<noteq> None \<longleftrightarrow> pageFlattens env s i"
  by (auto simp add: flattenPage_def pageFlattens_def pageAnnotationsOf_def Let_def
      split: option.splits)

lemma flattenPages_pages:
  "flattenPages env s is d = Some d' \<Longrightarrow>
     length (pages d') = length (pages d) \<and>
     (\<forall>j. j \<notin> set is \<or> pageAnnotationsOf s (int j) = [] \<longrightarrow> pages d' ! j = pages d ! j)"
proof (induction "is" arbitrary: d)
  case Nil
  then show ?case by simp
next
  case (Cons i rest)
  from Cons.prems obtain d1 where d1: "flattenPage env s i d = Some d1"
    and r: "flattenPages env s rest d1 = Some d'"
    by (auto split: option.splits)
  note p = flattenPage_pages [OF d1] and ih = Cons.IH [OF r]
  show ?case
  proof (intro conjI allI impI)
    show "length (pages d') = length (pages d)" using p ih by simp
  next
    fix j
    assume j: "j \<notin> set (i # rest) \<or> pageAnnotationsOf s (int j) = []"
    then have "pages d' ! j = pages d1 ! j" using ih by auto
    moreover have "pages d1 ! j = pages d ! j"
    proof (cases "j = i")
      case True
      with j have "pageAnnotationsOf s (int i) = []" by simp
      then have "d1 = d" using d1 by (simp add: flattenPage_skips)
      then show ?thesis by simp
    next
      case False
      then show ?thesis using p by simp
    qed
    ultimately show "pages d' ! j = pages d ! j" by simp
  qed
qed

lemma flattenPages_nothing:
  "\<forall>i\<in>set is. pageAnnotationsOf s (int i) = [] \<Longrightarrow> flattenPages env s is d = Some d"
  by (induction "is") (simp_all add: flattenPage_skips)

lemma flattenPages_succeeds:
  "flattenPages env s is d \<noteq> None \<longleftrightarrow> (\<forall>i\<in>set is. pageFlattens env s i)"
proof (induction "is" arbitrary: d)
  case Nil
  then show ?case by simp
next
  case (Cons i rest)
  show ?case
  proof (cases "flattenPage env s i d")
    case None
    then have "\<not> pageFlattens env s i"
      using flattenPage_succeeds [of env s i d] by simp
    with None show ?thesis by simp
  next
    case (Some d1)
    then have "pageFlattens env s i"
      using flattenPage_succeeds [of env s i d] by simp
    with Some Cons.IH [of d1] show ?thesis by simp
  qed
qed

text \<open>
  C6. Export leaves every page without annotations untouched. Once the original bytes
  are fetched and decoded, whatever document the page loop produces has the same number
  of pages, and each page whose annotation sequence is empty or missing is the very page
  the decoder returned. If no page has an annotation the loop cannot fail and returns the
  decoded document unchanged, so what is saved is the encoder's output for exactly that
  document.
\<close>

theorem export_leaves_unannotated_pages:
  assumes "pdfUrl \<noteq> []" "fetchBytes env pdfUrl = Some originalPdfBytes"
    "loadPdf env originalPdfBytes = Some pdfDoc"
  shows "(\<forall>flattened. flattenPages env s [0..<length (pages pdfDoc)] pdfDoc = Some flattened \<longrightarrow>
            length (pages flattened) = length (pages pdfDoc) \<and>
            (\<forall>i<length (pages pdfDoc). pageAnnotationsOf s (int i) = [] \<longrightarrow>
               pages flattened ! i = pages pdfDoc ! i)) \<and>
         ((\<forall>i<length (pages pdfDoc). pageAnnotationsOf s (int i) = []) \<longrightarrow>
            flattenPages env s [0..<length (pages pdfDoc)] pdfDoc = Some pdfDoc \<and>
            handleDownload env pdfUrl s =
              (case savePdf env pdfDoc of
                 None \<Rightarrow> ExportFailed
               | Some modifiedPdfBytes \<Rightarrow> Saved (editedFile modifiedPdfBytes)))"
proof -
  have a: "length (pages flattened) = length (pages pdfDoc) \<and>
      (\<forall>i<length (pages pdfDoc). pageAnnotationsOf s (int i) = [] \<longrightarrow>
         pages flattened ! i = pages pdfDoc ! i)"
    if f: "flattenPages env s [0..<length (pages pdfDoc)] pdfDoc = Some flattened" for flattened
    using flattenPages_pages [OF f] by simp
  have b: "flattenPages env s [0..<length (pages pdfDoc)] pdfDoc = Some pdfDoc \<and>
      handleDownload env pdfUrl s =
        (case savePdf env pdfDoc of
           None \<Rightarrow> ExportFailed
         | Some modifiedPdfBytes \<Rightarrow> Saved (editedFile modifiedPdfBytes))"
    if n: "\<forall>i<length (pages pdfDoc). pageAnnotationsOf s (int i) = []"
  proof -
    from n have "\<forall>i\<in>set [0..<length (pages pdfDoc)]. pageAnnotationsOf s (int i) = []"
      by simp
    then have f: "flattenPages env s [0..<length (pages pdfDoc)] pdfDoc = Some pdfDoc"
      by (rule flattenPages_nothing)
    then show ?thesis
      using assms by (simp add: handleDownload_def editedFile_def split: option.splits)
  qed
  from a b show ?thesis by blast
qed

text \<open>
  C7. Export is all-or-nothing. \<open>handleDownload\<close> hands a file to \<^verbatim>\<open>saveAs\<close> exactly when
  the URL is set and fetching, decoding, flattening every page (rasterising and embedding
  each annotated surface) and re-encoding all succeed; the file is then named
  \<^verbatim>\<open>edited-document.pdf\<close>, has MIME type \<^verbatim>\<open>application/pdf\<close> and holds the encoder's
  bytes. With a URL set, every other run ends in \<open>ExportFailed\<close>, which carries no file.
\<close>

theorem export_all_or_nothing:
  "(handleDownload env pdfUrl s = Saved file \<longleftrightarrow>
      pdfUrl \<noteq> [] \<and>
      (\<exists>originalPdfBytes pdfDoc flattened modifiedPdfBytes.
         fetchBytes env pdfUrl = Some originalPdfBytes \<and>
         loadPdf env originalPdfBytes = Some pdfDoc \<and>
         (\<forall>i<length (pages pdfDoc). pageFlattens env s i) \<and>
         flattenPages env s [0..<length (pages pdfDoc)] pdfDoc = Some flattened \<and>
         savePdf env flattened = Some modifiedPdfBytes \<and>
         file = editedFile modifiedPdfBytes)) \<and>
   (pdfUrl \<noteq> [] \<and> (\<forall>file. handleDownload env pdfUrl s \<noteq> Saved file) \<longrightarrow>
      handleDownload env pdfUrl s = ExportFailed)"
proof -
  have ok: "\<forall>i<length (pages d). pageFlattens env s i"
    if "flattenPages env s [0..<length (pages d)] d = Some d'" for d d'
    using flattenPages_succeeds [of env s "[0..<length (pages d)]" d] that by simp
  show ?thesis
    by (auto simp add: handleDownload_def editedFile_def dest: ok split: option.splits)
qed

theorem export_leaves_unannotated_pages_witness:
  "handleDownload sampleEnv ''blob:doc'' (onePage Tool_none) = Saved (editedFile [37, 80, 68, 70])"
proof -
  have "fetchBytes sampleEnv ''blob:doc'' = Some [37, 80, 68, 70]"
    and "loadPdf sampleEnv [37, 80, 68, 70] = Some \<lparr>pages = [\<lparr>page_width = 612,
      page_height = 792, page_content = [37, 80, 68, 70], page_images = []\<rparr>], embedded = []\<rparr>"
    by (simp_all add: sampleEnv_def)
  from export_leaves_unannotated_pages [OF _ this, of "onePage Tool_none"]
  show ?thesis
    by (simp add: onePage_eval pageAnnotationsOf_def sampleEnv_def)
qed

theorem export_all_or_nothing_witness:
  "handleDownload sampleEnv ''blob:doc'' blurred = Saved (editedFile [37, 80, 68, 70, 137, 80, 78, 71]) \<and>
   handleDownload (sampleEnv\<lparr>rasterize := \<lambda>c ops. None\<rparr>) ''blob:doc'' blurred = ExportFailed"
proof -
  have a: "handleDownload sampleEnv ''blob:doc'' blurred = Saved (editedFile [37, 80, 68, 70, 137, 80, 78, 71])"
    by (simp add: handleDownload_def sampleEnv_def flattenPage_def blurred_eval bitmapOf_def
        editedFile_def Let_def)
  have "\<not> pageFlattens (sampleEnv\<lparr>rasterize := \<lambda>c ops. None\<rparr>) blurred 0"
    by (simp add: pageFlattens_def blurred_eval sampleEnv_def pageAnnotationsOf_def)
  then have "handleDownload (sampleEnv\<lparr>rasterize := \<lambda>c ops. None\<rparr>) ''blob:doc'' blurred = ExportFailed"
    using export_all_or_nothing [of "sampleEnv\<lparr>rasterize := \<lambda>c ops. None\<rparr>" "''blob:doc''" blurred]
    by (auto simp add: sampleEnv_def)
  with a show ?thesis by simp
qed

section \<open>Pointer gestures\<close>

lemma key_lookup: "k \<in> fst ` set al \<longleftrightarrow> (\<exists>v. map_of al k = Some v)"
  using map_of_eq_None_iff [of al k] by auto

lemma landsOn_keys:
  "landsOn e s =
     (case ev_page e of
        None \<Rightarrow> None
      | Some ariaLabel \<Rightarrow>
          (case editorPageIndex ariaLabel of
             None \<Rightarrow> None
           | Some pageIndex \<Rightarrow>
               if pageIndex = - 1 then None
               else (case map_of (canvasRefs s) pageIndex of
                       None \<Rightarrow> None
                     | Some canvas \<Rightarrow>
                         if pageIndex \<in> fst ` set (contextRefs s)
                         then Some (pageIndex, canvas) else None)))"
  by (auto simp add: landsOn_def key_lookup split: option.splits)

lemma landsOn_cong:
  assumes "canvasRefs s' = canvasRefs s" "fst ` set (contextRefs s') = fst ` set (contextRefs s)"
  shows "landsOn e s' = landsOn e s"
  unfolding landsOn_keys assms by (rule refl)

lemma interaction_misses:
  "activeTool s = Tool_none \<or> landsOn e s = None \<Longrightarrow> handleToolInteraction e s = s"
  by (auto simp add: handleToolInteraction_def landsOn_def split: option.splits if_splits)

lemma interaction_lands:
  "activeTool s \<noteq> Tool_none \<Longrightarrow> landsOn e s = Some (p, cv) \<Longrightarrow>
     handleToolInteraction e s =
       (let bounded = boundedCanvas e cv
        in if ev_type e = MouseDown
           then s\<lparr>isDrawingRef := True, startCoordsRef := Some bounded,
                  currentCoordsRef := Some bounded\<rparr>
           else if ev_type e = MouseMove \<and> isDrawingRef s
           then handleMouseMove p bounded (uuid e) s
           else if ev_type e = MouseUp
           then handleMouseUp p bounded (prompt_reply e) (uuid e) s
           else s)"
  by (auto simp add: handleToolInteraction_def landsOn_def Let_def split: option.splits if_splits)

lemma eraseMove_frame [simp]:
  "activeTool (eraseMove p a b u s) = activeTool s"
  "pageContainerRefs (eraseMove p a b u s) = pageContainerRefs s"
  "canvasRefs (eraseMove p a b u s) = canvasRefs s"
  "contextRefs (eraseMove p a b u s) = contextRefs s"
  "isDrawingRef (eraseMove p a b u s) = isDrawingRef s"
  "startCoordsRef (eraseMove p a b u s) = startCoordsRef s"
  "currentCoordsRef (eraseMove p a b u s) = currentCoordsRef s"
  "document (eraseMove p a b u s) = document s"
  by (simp_all add: eraseMove_def Let_def split: list.splits ann_data.splits)

lemma update_keys_present:
  "map_of al k = Some v \<Longrightarrow> fst ` set (AList.update k w al) = fst ` set al"
  by (auto simp add: AList.dom_update dest: map_of_key)

lemma handleMouseMove_frame [simp]:
  "activeTool (handleMouseMove p b u s) = activeTool s"
  "pageContainerRefs (handleMouseMove p b u s) = pageContainerRefs s"
  "canvasRefs (handleMouseMove p b u s) = canvasRefs s"
  "isDrawingRef (handleMouseMove p b u s) = isDrawingRef s"
  "startCoordsRef (handleMouseMove p b u s) = startCoordsRef s"
  "document (handleMouseMove p b u s) = document s"
  "fst ` set (contextRefs (handleMouseMove p b u s)) = fst ` set (contextRefs s)"
  by (simp_all add: handleMouseMove_def Let_def update_keys_present split: option.splits)

lemma handleMouseMove_store:
  "activeTool s \<noteq> Tool_erase \<Longrightarrow>
     annotationsRef (handleMouseMove p b u s) = annotationsRef s"
  by (simp add: handleMouseMove_def Let_def split: option.splits)

lemma handleMouseUp_frame [simp]:
  "activeTool (handleMouseUp p b r u s) = activeTool s"
  "pageContainerRefs (handleMouseUp p b r u s) = pageContainerRefs s"
  "canvasRefs (handleMouseUp p b r u s) = canvasRefs s"
  "isDrawingRef (handleMouseUp p b r u s) = False"
  "startCoordsRef (handleMouseUp p b r u s) = None"
  "currentCoordsRef (handleMouseUp p b r u s) = None"
  "document (handleMouseUp p b r u s) = document s"
  "fst ` set (contextRefs (handleMouseUp p b r u s)) = fst ` set (contextRefs s)"
  by (simp_all add: handleMouseUp_def Let_def split: option.splits)

lemma interaction_frame [simp]:
  "activeTool (handleToolInteraction e s) = activeTool s"
  "pageContainerRefs (handleToolInteraction e s) = pageContainerRefs s"
  "canvasRefs (handleToolInteraction e s) = canvasRefs s"
  "document (handleToolInteraction e s) = document s"
  "fst ` set (contextRefs (handleToolInteraction e s)) = fst ` set (contextRefs s)"
  by (simp_all add: handleToolInteraction_def Let_def split: option.splits)

lemma interaction_landsOn [simp]:
  "landsOn e' (handleToolInteraction e s) = landsOn e' s"
  by (rule landsOn_cong) simp_all

lemma fold_interaction_frame [simp]:
  "activeTool (fold handleToolInteraction es s) = activeTool s"
  "pageContainerRefs (fold handleToolInteraction es s) = pageContainerRefs s"
  "canvasRefs (fold handleToolInteraction es s) = canvasRefs s"
  "document (fold handleToolInteraction es s) = document s"
  "landsOn e' (fold handleToolInteraction es s) = landsOn e' s"
  by (induction es arbitrary: s) simp_all

lemma move_keeps_gesture:
  assumes "activeTool s \<noteq> Tool_erase" "ev_type m = MouseMove"
  shows "annotationsRef (handleToolInteraction m s) = annotationsRef s \<and>
         startCoordsRef (handleToolInteraction m s) = startCoordsRef s \<and>
         isDrawingRef (handleToolInteraction m s) = isDrawingRef s"
proof (cases "activeTool s = Tool_none \<or> landsOn m s = None")
  case True
  then show ?thesis by (simp add: interaction_misses)
next
  case False
  then obtain p cv where "landsOn m s = Some (p, cv)" "activeTool s \<noteq> Tool_none" by auto
  then show ?thesis
    using assms by (simp add: interaction_lands handleMouseMove_store Let_def)
qed

lemma moves_keep_gesture:
  assumes "activeTool s \<noteq> Tool_erase" "list_all (\<lambda>m. ev_type m = MouseMove) moves"
  shows "annotationsRef (fold handleToolInteraction moves s) = annotationsRef s \<and>
         startCoordsRef (fold handleToolInteraction moves s) = startCoordsRef s \<and>
         isDrawingRef (fold handleToolInteraction moves s) = isDrawingRef s"
  using assms
proof (induction moves arbitrary: s)
  case Nil
  then show ?case by simp
next
  case (Cons m moves)
  then have "activeTool (handleToolInteraction m s) \<noteq> Tool_erase" by simp
  with Cons.IH [of "handleToolInteraction m s"] Cons.prems move_keeps_gesture [of s m]
  show ?case by simp
qed

lemma tenth_eval: "tenth = 3602879701896397 / 36028797018963968"
  by (simp add: tenth_def double_defs Let_def)

lemma offset_points:
  "boundedCanvas offsetPress (sampleCanvas Tool_blur) = (8106479329266893 / 9007199254740992, 10)"
  "boundedCanvas offsetRelease (sampleCanvas Tool_blur) = (3321404725185741 / 562949953421312, 10)"
  by (simp_all add: offsetPress_def offsetRelease_def pointerAt_def boundedCanvas_def
      sampleCanvas_def tenth_eval double_defs Let_def)

lemma blur_gesture_store:
  assumes "activeTool s = Tool_blur"
    and "ev_type press = MouseDown" and "landsOn press s = Some (p1, cv1)"
    and "list_all (\<lambda>m. ev_type m = MouseMove) moves"
    and "ev_type release = MouseUp" and "landsOn release s = Some (p2, cv2)"
  shows "annotationsRef (handleToolInteraction release
           (fold handleToolInteraction moves (handleToolInteraction press s))) =
         (case newAnnotationOnRelease Tool_blur p2 (boundedCanvas press cv1)
                 (boundedCanvas release cv2) (prompt_reply release) (uuid release) of
            None \<Rightarrow> annotationsRef s
          | Some newAnnotation \<Rightarrow>
              AList.update p2 (pageAnnotationsOf s p2 @ [newAnnotation]) (annotationsRef s))"
proof -
  let ?s1 = "handleToolInteraction press s"
  let ?s2 = "fold handleToolInteraction moves ?s1"
  have s1: "?s1 = s\<lparr>isDrawingRef := True, startCoordsRef := Some (boundedCanvas press cv1),
      currentCoordsRef := Some (boundedCanvas press cv1)\<rparr>"
    using assms(1-3) by (simp add: interaction_lands Let_def)
  have "activeTool ?s1 \<noteq> Tool_erase" using assms(1) by simp
  from moves_keep_gesture [OF this assms(4)]
  have s2: "annotationsRef ?s2 = annotationsRef s"
    "startCoordsRef ?s2 = Some (boundedCanvas press cv1)"
    by (simp_all add: s1)
  have t2: "activeTool ?s2 = Tool_blur" "landsOn release ?s2 = Some (p2, cv2)"
    using assms(1,6) by simp_all
  have "handleToolInteraction release ?s2 =
      handleMouseUp p2 (boundedCanvas release cv2) (prompt_reply release) (uuid release) ?s2"
    using t2 assms(5) by (simp add: interaction_lands Let_def)
  then show ?thesis
    using s2 t2
    by (simp add: handleMouseUp_def pageAnnotationsOf_def Let_def split: option.splits)
qed

text \<open>
  C3, as stated, fails. With the page's left edge at the viewport offset \<^verbatim>\<open>0.1\<close>, a blur
  drag pressed at \<^verbatim>\<open>clientX = 1\<close> and released at \<^verbatim>\<open>clientX = 6\<close> on the same line records
  the start point \<open>sx\<close> and the release point \<open>ex\<close> (the doubles written \<^verbatim>\<open>0.9\<close> and
  \<^verbatim>\<open>5.9\<close>) whose distance exceeds 5, by \<open>3 / 2^53\<close>. The difference the machine computes
  is 5, the test \<^verbatim>\<open>Math.abs(startX - endX) > 5\<close> fails, and nothing is committed.
\<close>

theorem blur_threshold_counterexample:
  "(let (sx, sy) = boundedCanvas offsetPress (sampleCanvas Tool_blur);
        (ex, ey) = boundedCanvas offsetRelease (sampleCanvas Tool_blur)
    in \<bar>sx - ex\<bar> > 5 \<and> \<bar>jsMinus sx ex\<bar> = 5) \<and>
   landsOn offsetPress (onePage Tool_blur) = Some (0, sampleCanvas Tool_blur) \<and>
   landsOn offsetRelease (onePage Tool_blur) = Some (0, sampleCanvas Tool_blur) \<and>
   annotationsRef (handleToolInteraction offsetRelease
     (handleToolInteraction offsetPress (onePage Tool_blur))) = []"
proof -
  have l: "landsOn offsetPress (onePage Tool_blur) = Some (0, sampleCanvas Tool_blur)"
    "landsOn offsetRelease (onePage Tool_blur) = Some (0, sampleCanvas Tool_blur)"
    by (simp_all add: landsOn_def offsetPress_def offsetRelease_def pointerAt_def onePage_eval
        sampleCanvas_def)
  have d: "\<bar>jsMinus (8106479329266893 / 9007199254740992) (3321404725185741 / 562949953421312)\<bar> = 5"
    by (simp add: double_defs Let_def)
  have d0: "jsMinus 10 10 = 0"
    by (simp add: jsMinus_def)
  have t: "activeTool (onePage Tool_blur) = Tool_blur"
    by (simp add: onePage_eval)
  have e: "ev_type offsetPress = MouseDown" "ev_type offsetRelease = MouseUp"
    "list_all (\<lambda>m. ev_type m = MouseMove) []"
    by (simp_all add: offsetPress_def offsetRelease_def pointerAt_def)
  have "annotationsRef (handleToolInteraction offsetRelease
      (fold handleToolInteraction [] (handleToolInteraction offsetPress (onePage Tool_blur)))) = []"
    unfolding blur_gesture_store [OF t e(1) l(1) e(3) e(2) l(2)]
    by (simp add: newAnnotationOnRelease_def offset_points d d0 onePage_eval Let_def)
  then show ?thesis
    using l d by (simp add: offset_points)
qed

text \<open>
  C3, amended. With the blur tool active, a press, any moves and a release that land on
  live surfaces commit a blur region, appended to the sequence of the page of the release
  with the recorded start and release points as its corners, if and only if
  \<open>|sx \<ominus> ex| > 5\<close> or \<open>|sy \<ominus> ey| > 5\<close>, where \<open>\<ominus>\<close> is the subtraction of doubles: the
  difference rounded to the nearest double, ties to even. Otherwise the store is
  unchanged. In particular a drag with \<open>|sx - ex| \<le> 5\<close> and \<open>|sy - ey| \<le> 5\<close> commits
  nothing, and a drag with \<open>|sx - ex| = 6\<close> commits one region.
\<close>

theorem blur_commit_threshold:
  assumes "activeTool s = Tool_blur"
    and "ev_type press = MouseDown" and "landsOn press s = Some (p1, cv1)"
    and "list_all (\<lambda>m. ev_type m = MouseMove) moves"
    and "ev_type release = MouseUp" and "landsOn release s = Some (p2, cv2)"
  shows "(let (sx, sy) = boundedCanvas press cv1; (ex, ey) = boundedCanvas release cv2;
              committed = (\<bar>jsMinus sx ex\<bar> > 5 \<or> \<bar>jsMinus sy ey\<bar> > 5)
          in annotationsRef (handleToolInteraction release
               (fold handleToolInteraction moves (handleToolInteraction press s))) =
             (if committed
              then AList.update p2
                     (pageAnnotationsOf s p2 @
                        [\<lparr>ann_id = uuid release, ann_pageIndex = p2,
                          ann_data = BlurData sx sy ex ey\<rparr>])
                     (annotationsRef s)
              else annotationsRef s) \<and>
             (\<bar>sx - ex\<bar> \<le> 5 \<and> \<bar>sy - ey\<bar> \<le> 5 \<longrightarrow> \<not> committed) \<and>
             (\<bar>sx - ex\<bar> = 6 \<longrightarrow> committed))"
proof -
  obtain sx sy ex ey where p: "boundedCanvas press cv1 = (sx, sy)"
    "boundedCanvas release cv2 = (ex, ey)"
    by (cases "boundedCanvas press cv1"; cases "boundedCanvas release cv2") auto
  have small: "\<not> (\<bar>jsMinus sx ex\<bar> > 5 \<or> \<bar>jsMinus sy ey\<bar> > 5)"
    if "\<bar>sx - ex\<bar> \<le> 5 \<and> \<bar>sy - ey\<bar> \<le> 5"
    using that roundDouble_within_5 [of "sx - ex"] roundDouble_within_5 [of "sy - ey"]
    by (simp add: jsMinus_def)
  have six: "\<bar>jsMinus sx ex\<bar> > 5" if "\<bar>sx - ex\<bar> = 6"
  proof -
    from that have "sx - ex = 6 \<or> sx - ex = - 6" by linarith
    then show ?thesis by (auto simp add: jsMinus_def)
  qed
  show ?thesis
    unfolding blur_gesture_store [OF assms]
    using small six
    by (simp add: p newAnnotationOnRelease_def Let_def)
qed

theorem blur_commit_threshold_witness:
  "annotationsRef (handleToolInteraction (pointerAt MouseUp ''Page 1'' 16 10)
     (fold handleToolInteraction [pointerAt MouseMove ''Page 1'' 13 10]
        (handleToolInteraction (pointerAt MouseDown ''Page 1'' 10 10) (onePage Tool_blur)))) =
     [(0, [\<lparr>ann_id = ''id'', ann_pageIndex = 0, ann_data = BlurData 10 10 16 10\<rparr>])] \<and>
   annotationsRef (handleToolInteraction (pointerAt MouseUp ''Page 1'' 15 5)
     (fold handleToolInteraction [pointerAt MouseMove ''Page 1'' 13 10]
        (handleToolInteraction (pointerAt MouseDown ''Page 1'' 10 10) (onePage Tool_blur)))) = []"
proof -
  have t: "activeTool (onePage Tool_blur) = Tool_blur"
    by (simp add: onePage_eval)
  have d: "ev_type (pointerAt MouseDown ''Page 1'' 10 10) = MouseDown"
    and m: "list_all (\<lambda>m. ev_type m = MouseMove) [pointerAt MouseMove ''Page 1'' 13 10]"
    and u: "ev_type (pointerAt MouseUp ''Page 1'' x y) = MouseUp" for x y
    by (simp_all add: pointerAt_def)
  have b: "boundedCanvas (pointerAt t ''Page 1'' x y) (sampleCanvas Tool_blur) =
      (max 0 (min (roundDouble x) 100), max 0 (min (roundDouble y) 200))" for t x y
    by (simp add: boundedCanvas_def jsMinus_def pointerAt_def sampleCanvas_def)
  have i: "uuid (pointerAt t ''Page 1'' x y) = ''id''" for t x y
    by (simp add: pointerAt_def)
  note w = blur_commit_threshold [OF t d onePage_landsOn m u onePage_landsOn]
  from w [of 16 10] w [of 15 5] show ?thesis
    by (simp add: b i jsMinus_def onePage_eval pageAnnotationsOf_def)
qed

lemma handleToolChange_gesture:
  "isDrawingRef (handleToolChange t s) = (isDrawingTool t \<and> isDrawingRef s)"
  "startCoordsRef (handleToolChange t s) = (if isDrawingTool t then startCoordsRef s else None)"
  "currentCoordsRef (handleToolChange t s) = (if isDrawingTool t then currentCoordsRef s else None)"
  by (simp_all add: handleToolChange_def Let_def)

section \<open>Tool switch during a drag\<close>

text \<open>
  C4, as stated, fails: switching from blur to erase while a blur drag is active leaves
  the gesture active with its start and current points.
\<close>

theorem tool_switch_counterexample:
  "isDrawingRef dragging \<and>
   isDrawingRef (handleToolChange Tool_erase dragging) \<and>
   startCoordsRef (handleToolChange Tool_erase dragging) = Some (10, 10) \<and>
   currentCoordsRef (handleToolChange Tool_erase dragging) = Some (10, 10)"
  by (simp add: handleToolChange_gesture dragging_def onePage_eval eval_defs)

text \<open>
  C4, amended. A tool switch never changes the annotation store, so erase points already
  committed remain. A switch to \<open>none\<close> forces the gesture back to idle: the active
  flag is cleared and the start and current points are discarded. A switch to blur, erase
  or addText leaves the gesture state as it is.
\<close>

theorem tool_switch_resets_gesture:
  "annotationsRef (handleToolChange t s) = annotationsRef s \<and>
   (t = Tool_none \<longrightarrow>
      \<not> isDrawingRef (handleToolChange t s) \<and>
      startCoordsRef (handleToolChange t s) = None \<and>
      currentCoordsRef (handleToolChange t s) = None) \<and>
   (t \<noteq> Tool_none \<longrightarrow>
      isDrawingRef (handleToolChange t s) = isDrawingRef s \<and>
      startCoordsRef (handleToolChange t s) = startCoordsRef s \<and>
      currentCoordsRef (handleToolChange t s) = currentCoordsRef s)"
  by (cases t) (simp_all add: handleToolChange_gesture isDrawingTool_def)

theorem tool_switch_resets_gesture_witness:
  "isDrawingRef erasing \<and>
   \<not> isDrawingRef (handleToolChange Tool_none erasing) \<and>
   startCoordsRef (handleToolChange Tool_none erasing) = None \<and>
   currentCoordsRef (handleToolChange Tool_none erasing) = None \<and>
   annotationsRef (handleToolChange Tool_none erasing) =
     [(0, [\<lparr>ann_id = ''id'', ann_pageIndex = 0, ann_data = EraseData [(10, 10), (20, 10)]\<rparr>])]"
proof -
  have "isDrawingRef erasing" and "annotationsRef erasing =
      [(0, [\<lparr>ann_id = ''id'', ann_pageIndex = 0, ann_data = EraseData [(10, 10), (20, 10)]\<rparr>])]"
    by (simp_all add: erasing_def onePage_eval eval_defs)
  then show ?thesis
    using tool_switch_resets_gesture [of Tool_none erasing] by simp
qed

section \<open>Erase gestures\<close>

lemma pageAnnotationsOf_update [simp]:
  "pageAnnotationsOf (s\<lparr>annotationsRef := AList.update p anns al\<rparr>) p = anns"
  by (simp add: pageAnnotationsOf_def AList.update_conv')

lemma pageAnnotationsOf_cong:
  "annotationsRef s' = annotationsRef s \<Longrightarrow> pageAnnotationsOf s' p = pageAnnotationsOf s p"
  by (simp add: pageAnnotationsOf_def)

lemma eraseMove_creates:
  assumes "case rev (pageAnnotationsOf s p) of [] \<Rightarrow> True | a # before \<Rightarrow> ann_type a \<noteq> Tool_erase"
  shows "annotationsRef (eraseMove p start current newId s) =
     AList.update p (pageAnnotationsOf s p @
        [\<lparr>ann_id = newId, ann_pageIndex = p, ann_data = EraseData [start, current]\<rparr>])
       (annotationsRef s)"
  using assms by (simp add: eraseMove_def Let_def split: list.splits ann_data.splits)

lemma eraseMove_extends:
  assumes "pageAnnotationsOf s p = before @ [a]" "ann_data a = EraseData path"
  shows "annotationsRef (eraseMove p start current newId s) =
     AList.update p (before @ [a\<lparr>ann_data := EraseData (path @ [current])\<rparr>]) (annotationsRef s)"
  using assms by (simp add: eraseMove_def Let_def)

lemma handleMouseMove_erase:
  assumes "activeTool s = Tool_erase" "startCoordsRef s = Some start"
  shows "annotationsRef (handleMouseMove p bounded newId s) =
     annotationsRef (eraseMove p start bounded newId s)"
proof -
  let ?s1 = "redrawPageAnnotations p (s\<lparr>currentCoordsRef := Some bounded\<rparr>)"
  have "pageAnnotationsOf ?s1 p = pageAnnotationsOf s p" "annotationsRef ?s1 = annotationsRef s"
    by (simp_all add: pageAnnotationsOf_def)
  then have "annotationsRef (eraseMove p start bounded newId ?s1) =
      annotationsRef (eraseMove p start bounded newId s)"
    by (simp add: eraseMove_def Let_def split: list.splits ann_data.splits)
  then show ?thesis
    using assms by (simp add: handleMouseMove_def Let_def)
qed

lemma handleMouseUp_erase:
  "activeTool s = Tool_erase \<Longrightarrow>
     annotationsRef (handleMouseUp p bounded reply newId s) = annotationsRef s"
  by (simp add: handleMouseUp_def newAnnotationOnRelease_def Let_def split: option.splits)

text \<open>
  In general an erase gesture on one page adds exactly one stroke, made of the press
  point and the points of its moves, provided the page's last annotation is not already
  an erase stroke.
\<close>

lemma erase_gesture_new_stroke:
  assumes tool: "activeTool s = Tool_erase"
    and press: "ev_type press = MouseDown" "landsOn press s = Some (p, cv)"
    and move1: "ev_type move1 = MouseMove" "landsOn move1 s = Some (p, cv)"
    and move2: "ev_type move2 = MouseMove" "landsOn move2 s = Some (p, cv)"
    and release: "ev_type release = MouseUp" "landsOn release s = Some (p, cv)"
    and fresh: "case rev (pageAnnotationsOf s p) of [] \<Rightarrow> True
                | a # before \<Rightarrow> ann_type a \<noteq> Tool_erase"
  shows "annotationsRef (fold handleToolInteraction [press, move1, move2, release] s) =
     AList.update p (pageAnnotationsOf s p @
        [\<lparr>ann_id = uuid move1, ann_pageIndex = p,
          ann_data = EraseData [boundedCanvas press cv, boundedCanvas move1 cv,
                                boundedCanvas move2 cv]\<rparr>])
       (annotationsRef s)"
proof -
  let ?a = "boundedCanvas press cv" and ?b = "boundedCanvas move1 cv"
    and ?c = "boundedCanvas move2 cv"
  let ?s1 = "handleToolInteraction press s"
  let ?s2 = "handleToolInteraction move1 ?s1"
  let ?s3 = "handleToolInteraction move2 ?s2"
  let ?new = "\<lparr>ann_id = uuid move1, ann_pageIndex = p, ann_data = EraseData [?a, ?b]\<rparr>"
  have n: "activeTool s \<noteq> Tool_none" using tool by simp
  have s1: "?s1 = s\<lparr>isDrawingRef := True, startCoordsRef := Some ?a, currentCoordsRef := Some ?a\<rparr>"
    using n press by (simp add: interaction_lands Let_def)
  have d1: "isDrawingRef ?s1" "startCoordsRef ?s1 = Some ?a" "annotationsRef ?s1 = annotationsRef s"
    by (simp_all add: s1)
  have t1: "activeTool ?s1 = Tool_erase" "activeTool ?s1 \<noteq> Tool_none"
    and l1: "landsOn move1 ?s1 = Some (p, cv)"
    using tool move1 by simp_all
  have f1: "case rev (pageAnnotationsOf ?s1 p) of [] \<Rightarrow> True
      | a # before \<Rightarrow> ann_type a \<noteq> Tool_erase"
    using fresh pageAnnotationsOf_cong [OF d1(3)] by simp
  have m2: "?s2 = handleMouseMove p ?b (uuid move1) ?s1"
    using interaction_lands [OF t1(2) l1] move1(1) d1(1) by (simp add: Let_def)
  have a2: "annotationsRef ?s2 =
      AList.update p (pageAnnotationsOf s p @ [?new]) (annotationsRef s)"
    unfolding m2 handleMouseMove_erase [OF t1(1) d1(2)] eraseMove_creates [OF f1]
    using pageAnnotationsOf_cong [OF d1(3)] d1(3) by simp
  have g2: "activeTool ?s2 = Tool_erase" "startCoordsRef ?s2 = Some ?a" "isDrawingRef ?s2"
    using tool d1 by (simp_all add: m2)
  have l2: "landsOn move2 ?s2 = Some (p, cv)"
    using move2 by simp
  have p2: "pageAnnotationsOf ?s2 p = pageAnnotationsOf s p @ [?new]"
    by (simp add: pageAnnotationsOf_def a2 AList.update_conv')
  have n2: "activeTool ?s2 \<noteq> Tool_none" using g2(1) by simp
  have m3: "?s3 = handleMouseMove p ?c (uuid move2) ?s2"
    using interaction_lands [OF n2 l2] move2(1) g2(3) by (simp add: Let_def)
  have e3: "annotationsRef (eraseMove p ?a ?c (uuid move2) ?s2) =
      AList.update p (pageAnnotationsOf s p @ [?new\<lparr>ann_data := EraseData ([?a, ?b] @ [?c])\<rparr>])
        (annotationsRef ?s2)"
    by (rule eraseMove_extends [OF p2]) simp
  have a3: "annotationsRef ?s3 =
      AList.update p (pageAnnotationsOf s p @ [?new\<lparr>ann_data := EraseData ([?a, ?b] @ [?c])\<rparr>])
        (annotationsRef s)"
    unfolding m3 handleMouseMove_erase [OF g2(1,2)] e3 a2 by simp
  have t3: "activeTool ?s3 = Tool_erase" "activeTool ?s3 \<noteq> Tool_none"
    and l3: "landsOn release ?s3 = Some (p, cv)"
    using tool release by simp_all
  have "handleToolInteraction release ?s3 =
      handleMouseUp p (boundedCanvas release cv) (prompt_reply release) (uuid release) ?s3"
    using interaction_lands [OF t3(2) l3] release(1) by (simp add: Let_def)
  then have "annotationsRef (handleToolInteraction release ?s3) = annotationsRef ?s3"
    using t3(1) by (simp add: handleMouseUp_erase)
  with a3 show ?thesis by simp
qed

lemma erasedOnce_store:
  "annotationsRef erasedOnce =
     [(0, [\<lparr>ann_id = ''id'', ann_pageIndex = 0, ann_data = EraseData [(0, 0), (5, 5)]\<rparr>])]"
  by (simp add: erasedOnce_def onePage_eval eval_defs)

text \<open>
  C2, on the code: when the page's last annotation is an erase stroke of an earlier,
  finished gesture, the erase gesture press (10,10), move (20,10), move (20,20), release
  adds no record. Its moves are appended to the earlier stroke and its press point is
  recorded nowhere.
\<close>

theorem erase_gesture_extends_previous_stroke:
  "annotationsRef (fold handleToolInteraction eraseGesture erasedOnce) =
     [(0, [\<lparr>ann_id = ''id'', ann_pageIndex = 0,
            ann_data = EraseData [(0, 0), (5, 5), (20, 10), (20, 20)]\<rparr>])]"
  by (simp add: eraseGesture_def erasedOnce_def onePage_eval eval_defs)

text \<open>On a page without annotations the same gesture adds the one stroke C2 describes.\<close>

lemma erase_gesture_on_fresh_page:
  "annotationsRef (fold handleToolInteraction eraseGesture (onePage Tool_erase)) =
     [(0, [\<lparr>ann_id = ''id'', ann_pageIndex = 0,
            ann_data = EraseData [(10, 10), (20, 10), (20, 20)]\<rparr>])]"
  by (simp add: eraseGesture_def onePage_eval eval_defs)

section \<open>Recorded coordinates\<close>

text \<open>
  C10. Every recorded coordinate is to lie in the pixel box of the surface of the page the
  annotation is committed on. The code clamps the start point of a blur drag to the
  surface under the press and commits the region on the page under the release: a drag
  pressed at (80,10) on a page 100 pixels wide and released at (10,30) on a page 50 pixels
  wide commits, on the narrow page, a region whose start corner has \<open>x = 80\<close>, outside
  that page's surface of 50 by 200 pixels.
\<close>

theorem cross_page_drag_escapes_box:
  "annotationsRef crossPageDrag =
     [(1, [\<lparr>ann_id = ''id'', ann_pageIndex = 1, ann_data = BlurData 80 10 10 30\<rparr>])] \<and>
   map_option cv_width (map_of (canvasRefs crossPageDrag) 1) = Some 50 \<and>
   map_option cv_height (map_of (canvasRefs crossPageDrag) 1) = Some 200 \<and>
   \<not> annotationWithin 50 200
       \<lparr>ann_id = ''id'', ann_pageIndex = 1, ann_data = BlurData 80 10 10 30\<rparr>"
  by (simp add: crossPageDrag_def twoPages_eval eval_defs sampleCanvas_def annotationWithin_def
      pointWithin_def)

lemma boundedCanvas_within:
  "pointWithin (real (cv_width cv)) (real (cv_height cv)) (boundedCanvas event cv)"
  by (simp add: pointWithin_def boundedCanvas_def Let_def)

lemma pointWithin_mono:
  "pointWithin w h pt \<Longrightarrow> w \<le> W \<Longrightarrow> h \<le> H \<Longrightarrow> pointWithin W H pt"
  by (simp add: pointWithin_def)

lemma landsOn_canvas:
  "landsOn e s = Some (p, cv) \<Longrightarrow> map_of (canvasRefs s) p = Some cv"
  by (auto simp add: landsOn_def split: option.splits if_splits)

lemma bounded_in_surfaces:
  assumes "surfacesWithin W H s" "landsOn e s = Some (p, cv)"
  shows "pointWithin W H (boundedCanvas e cv)"
proof -
  have "real (cv_width cv) \<le> W \<and> real (cv_height cv) \<le> H"
    using list_all_map_of [OF assms(1) [unfolded surfacesWithin_def] landsOn_canvas [OF assms(2)]]
    by simp
  then show ?thesis
    using boundedCanvas_within [of cv e] by (auto intro: pointWithin_mono)
qed

lemma page_within:
  assumes "list_all (\<lambda>(i, anns). list_all (annotationWithin W H) anns) (annotationsRef s)"
  shows "list_all (annotationWithin W H) (pageAnnotationsOf s p)"
proof (cases "map_of (annotationsRef s) p")
  case None
  then show ?thesis by (simp add: pageAnnotationsOf_def)
next
  case (Some anns)
  with list_all_map_of [OF assms Some] show ?thesis by (simp add: pageAnnotationsOf_def)
qed

lemma eraseMove_within:
  assumes a: "list_all (\<lambda>(i, anns). list_all (annotationWithin W H) anns) (annotationsRef s)"
    and "pointWithin W H start" "pointWithin W H current"
  shows "list_all (\<lambda>(i, anns). list_all (annotationWithin W H) anns)
           (annotationsRef (eraseMove p start current newId s))"
proof -
  note pg = page_within [OF a, of p]
  have created: "list_all (annotationWithin W H) (pageAnnotationsOf s p @
      [\<lparr>ann_id = newId, ann_pageIndex = p, ann_data = EraseData [start, current]\<rparr>])"
    using pg assms(2,3) by (simp add: annotationWithin_def)
  have extended: "list_all (annotationWithin W H)
      (butlast (pageAnnotationsOf s p) @ [l\<lparr>ann_data := EraseData (path @ [current])\<rparr>])"
    if "rev (pageAnnotationsOf s p) = l # before" "ann_data l = EraseData path" for l before path
  proof -
    from that(1) have eq: "pageAnnotationsOf s p = rev before @ [l]"
      by (metis rev.simps(2) rev_rev_ident)
    with pg have "list_all (annotationWithin W H) (rev before)" "annotationWithin W H l"
      by simp_all
    then show ?thesis
      using that(2) assms(3) by (simp add: eq annotationWithin_def)
  qed
  show ?thesis
    using a created extended
    by (auto simp add: eraseMove_def Let_def list_all_update split: list.splits ann_data.splits)
qed

lemma coordsWithin_interaction:
  assumes c: "coordsWithin W H s" and sf: "surfacesWithin W H s"
  shows "coordsWithin W H (handleToolInteraction e s)"
proof (cases "activeTool s = Tool_none \<or> landsOn e s = None")
  case True
  then show ?thesis using c by (simp add: interaction_misses)
next
  case False
  then obtain p cv where l: "landsOn e s = Some (p, cv)" and n: "activeTool s \<noteq> Tool_none"
    by auto
  note b = bounded_in_surfaces [OF sf l]
  from c have a: "list_all (\<lambda>(i, anns). list_all (annotationWithin W H) anns) (annotationsRef s)"
    and st: "case startCoordsRef s of None \<Rightarrow> True | Some pt \<Rightarrow> pointWithin W H pt"
    by (simp_all add: coordsWithin_def)
  have down: "coordsWithin W H (s\<lparr>isDrawingRef := True,
      startCoordsRef := Some (boundedCanvas e cv), currentCoordsRef := Some (boundedCanvas e cv)\<rparr>)"
    using a b by (simp add: coordsWithin_def)
  have move: "coordsWithin W H (handleMouseMove p (boundedCanvas e cv) (uuid e) s)"
  proof (cases "activeTool s = Tool_erase")
    case False
    then show ?thesis using c by (simp add: coordsWithin_def handleMouseMove_store)
  next
    case True
    show ?thesis
    proof (cases "startCoordsRef s")
      case None
      then show ?thesis
        using c by (simp add: coordsWithin_def handleMouseMove_def Let_def)
    next
      case (Some start)
      with st have "pointWithin W H start" by simp
      from eraseMove_within [OF a this b]
      show ?thesis
        using st by (simp add: coordsWithin_def handleMouseMove_erase [OF True Some])
    qed
  qed
  have up: "coordsWithin W H (handleMouseUp p (boundedCanvas e cv) (prompt_reply e) (uuid e) s)"
  proof -
    have "annotationWithin W H new"
      if "startCoordsRef s = Some start"
        "newAnnotationOnRelease (activeTool s) p start (boundedCanvas e cv) (prompt_reply e) (uuid e) = Some new"
      for start new
    proof -
      from that(1) st have "pointWithin W H start" by simp
      then show ?thesis
        using that(2) b
        by (auto simp add: newAnnotationOnRelease_def annotationWithin_def Let_def pointWithin_def
            split: if_splits option.splits)
    qed
    then show ?thesis
      using a page_within [OF a, of p]
      by (auto simp add: coordsWithin_def handleMouseUp_def Let_def list_all_update
          pageAnnotationsOf_def split: option.splits)
  qed
  show ?thesis
    using c down move up by (simp add: interaction_lands [OF n l] Let_def)
qed


lemma overlayCanvas_frame [simp]:
  "activeTool (overlayCanvas p el s) = activeTool s"
  "pageContainerRefs (overlayCanvas p el s) = pageContainerRefs s"
  "annotationsRef (overlayCanvas p el s) = annotationsRef s"
  "isDrawingRef (overlayCanvas p el s) = isDrawingRef s"
  "startCoordsRef (overlayCanvas p el s) = startCoordsRef s"
  "currentCoordsRef (overlayCanvas p el s) = currentCoordsRef s"
  "document (overlayCanvas p el s) = document s"
  by (simp_all add: overlayCanvas_def Let_def split: option.splits)

lemma manageCanvas_frame [simp]:
  "activeTool (manageCanvas g p s) = activeTool s"
  "pageContainerRefs (manageCanvas g p s) = pageContainerRefs s"
  "annotationsRef (manageCanvas g p s) = annotationsRef s"
  "isDrawingRef (manageCanvas g p s) = isDrawingRef s"
  "startCoordsRef (manageCanvas g p s) = startCoordsRef s"
  "currentCoordsRef (manageCanvas g p s) = currentCoordsRef s"
  "document (manageCanvas g p s) = document s"
  by (simp_all add: manageCanvas_def Let_def split: option.splits)

lemma fold_manageCanvas_frame [simp]:
  "activeTool (fold (manageCanvas g) ps s) = activeTool s"
  "pageContainerRefs (fold (manageCanvas g) ps s) = pageContainerRefs s"
  "annotationsRef (fold (manageCanvas g) ps s) = annotationsRef s"
  "isDrawingRef (fold (manageCanvas g) ps s) = isDrawingRef s"
  "startCoordsRef (fold (manageCanvas g) ps s) = startCoordsRef s"
  "currentCoordsRef (fold (manageCanvas g) ps s) = currentCoordsRef s"
  "document (fold (manageCanvas g) ps s) = document s"
  by (induction ps arbitrary: s) simp_all

lemma removeCanvas_frame [simp]:
  "activeTool (removeCanvas p s) = activeTool s"
  "pageContainerRefs (removeCanvas p s) = pageContainerRefs s"
  "isDrawingRef (removeCanvas p s) = isDrawingRef s"
  "startCoordsRef (removeCanvas p s) = startCoordsRef s"
  "currentCoordsRef (removeCanvas p s) = currentCoordsRef s"
  "document (removeCanvas p s) = document s"
  by (simp_all add: removeCanvas_def split: option.splits)

lemma fold_removeCanvas_frame [simp]:
  "activeTool (fold removeCanvas ps s) = activeTool s"
  "pageContainerRefs (fold removeCanvas ps s) = pageContainerRefs s"
  "isDrawingRef (fold removeCanvas ps s) = isDrawingRef s"
  "startCoordsRef (fold removeCanvas ps s) = startCoordsRef s"
  "currentCoordsRef (fold removeCanvas ps s) = currentCoordsRef s"
  "document (fold removeCanvas ps s) = document s"
  by (induction ps arbitrary: s) simp_all

lemma removeCanvas_annotations:
  "annotationsRef (removeCanvas p s) =
     (if map_of (pageContainerRefs s) p = None \<and> map_of (canvasRefs s) p \<noteq> None
      then AList.delete p (annotationsRef s) else annotationsRef s)"
  by (simp add: removeCanvas_def split: option.splits)

lemma coordsWithin_removeCanvas:
  "coordsWithin W H s \<Longrightarrow> coordsWithin W H (removeCanvas p s)"
  unfolding coordsWithin_def removeCanvas_frame removeCanvas_annotations
  by (simp add: list_all_delete)

lemma coordsWithin_effect:
  assumes "coordsWithin W H s"
  shows "coordsWithin W H (canvasLifecycleEffect g s)"
proof -
  have "coordsWithin W H (fold (manageCanvas g) ks s)" for ks
    using assms by (simp add: coordsWithin_def)
  then have "coordsWithin W H (fold removeCanvas as (fold (manageCanvas g) ks s))" for ks as
    by (rule fold_invariant [where P = "coordsWithin W H"]) (rule coordsWithin_removeCanvas)
  then show ?thesis by (simp add: canvasLifecycleEffect_def Let_def)
qed

lemma reachableWithin_coords: "reachableWithin W H s \<Longrightarrow> coordsWithin W H s"
proof (induction rule: reachableWithin.induct)
  case (mountedW d)
  show ?case by (simp add: coordsWithin_def initialEditor_def)
next
  case (registryW s refs)
  then show ?case by (simp add: coordsWithin_def handlePageContainerRefsChange_def)
next
  case (effectW s getContext)
  from effectW.IH show ?case by (rule coordsWithin_effect)
next
  case (toolChangeW s t)
  then show ?case
    by (simp add: coordsWithin_def handleToolChange_gesture split: option.splits)
next
  case (interactionW s event)
  from interactionW.IH interactionW.hyps(2) show ?case by (rule coordsWithin_interaction)
next
  case (mouseLeaveW s)
  then show ?case by (simp add: coordsWithin_def handleMouseLeave_def)
next
  case (rendererW s d)
  then show ?case by (simp add: coordsWithin_def)
qed

text \<open>
  What the clamping does ensure: every point a pointer event records lies in the pixel box
  of the surface of the page that event landed on. Hence, in a session where all surfaces
  are at most \<open>W\<close> by \<open>H\<close> pixels whenever a pointer event is handled, every stored
  coordinate (blur corners, erase points, text anchors) and the gesture's start point lie
  in \<open>[0,W] \<times> [0,H]\<close>.
\<close>

lemma recorded_coordinates_clamped:
  "pointWithin (real (cv_width cv)) (real (cv_height cv)) (boundedCanvas event cv) \<and>
   (reachableWithin W H s \<longrightarrow> coordsWithin W H s)"
  using boundedCanvas_within reachableWithin_coords by blast

lemma twoPages_within: "reachableWithin 100 200 twoPages \<and> surfacesWithin 100 200 twoPages"
proof
  show "reachableWithin 100 200 twoPages"
    unfolding twoPages_def by (intro reachableWithin.intros)
  show "surfacesWithin 100 200 twoPages"
    by (simp add: surfacesWithin_def twoPages_eval sampleCanvas_def)
qed

lemma recorded_coordinates_clamped_on_drag:
  "reachableWithin 100 200 crossPageDrag \<and> coordsWithin 100 200 crossPageDrag \<and>
   annotationsRef crossPageDrag =
     [(1, [\<lparr>ann_id = ''id'', ann_pageIndex = 1, ann_data = BlurData 80 10 10 30\<rparr>])]"
proof -
  let ?s1 = "handleToolInteraction (pointerAt MouseDown ''Page 1'' 80 10) twoPages"
  have r1: "reachableWithin 100 200 ?s1"
    using twoPages_within by (intro reachableWithin.interactionW) simp_all
  have "surfacesWithin 100 200 ?s1"
    using twoPages_within by (simp add: surfacesWithin_def)
  with r1 have r: "reachableWithin 100 200 crossPageDrag"
    unfolding crossPageDrag_def by (rule reachableWithin.interactionW)
  moreover have "annotationsRef crossPageDrag =
      [(1, [\<lparr>ann_id = ''id'', ann_pageIndex = 1, ann_data = BlurData 80 10 10 30\<rparr>])]"
    by (simp add: crossPageDrag_def twoPages_eval eval_defs sampleCanvas_def)
  ultimately show ?thesis
    using recorded_coordinates_clamped [of _ _ 100 200 crossPageDrag] by blast
qed

section \<open>Surfaces and the registry\<close>

lemma delete_keys_set: "fst ` set (AList.delete k al) = fst ` set al - {k}"
  using AList.delete_keys [of k al] by (metis list.set_map set_removeAll)

lemma overlayCanvas_keys [simp]:
  "fst ` set (canvasRefs (overlayCanvas p el s)) = fst ` set (canvasRefs s)"
  "fst ` set (contextRefs (overlayCanvas p el s)) = fst ` set (contextRefs s)"
  by (simp_all add: overlayCanvas_def Let_def update_keys_present split: option.splits)

lemma manageCanvas_canvas_keys:
  "fst ` set (canvasRefs (manageCanvas g p s)) =
     (if p \<in> fst ` set (pageContainerRefs s) then insert p (fst ` set (canvasRefs s))
      else fst ` set (canvasRefs s))"
  by (auto simp add: manageCanvas_def Let_def key_lookup [of p "pageContainerRefs s"]
      key_lookup [of p "canvasRefs s"] AList.dom_update update_keys_present split: option.splits)

lemma manageCanvas_context_keys:
  "fst ` set (contextRefs (manageCanvas g p s)) =
     (if p \<in> fst ` set (pageContainerRefs s) \<and> p \<notin> fst ` set (canvasRefs s) \<and> g p
      then insert p (fst ` set (contextRefs s)) else fst ` set (contextRefs s))"
  by (auto simp add: manageCanvas_def Let_def key_lookup [of p "pageContainerRefs s"]
      key_lookup [of p "canvasRefs s"] AList.dom_update split: option.splits)

lemma fold_manageCanvas_keys:
  shows "fst ` set (canvasRefs (fold (manageCanvas g) ks s)) =
     fst ` set (canvasRefs s) \<union> (set ks \<inter> fst ` set (pageContainerRefs s))"
    and "fst ` set (contextRefs (fold (manageCanvas g) ks s)) =
     fst ` set (contextRefs s) \<union>
       {k \<in> set ks. k \<in> fst ` set (pageContainerRefs s) \<and> k \<notin> fst ` set (canvasRefs s) \<and> g k}"
proof (induction ks arbitrary: s)
  case Nil
  {
    case 1 show ?case by simp
  next
    case 2 show ?case by simp
  }
next
  case (Cons k ks)
  {
    case 1
    show ?case
      by (simp add: Cons.IH manageCanvas_canvas_keys; blast?)
  next
    case 2
    show ?case
      by (simp add: Cons.IH manageCanvas_canvas_keys manageCanvas_context_keys; blast?)
  }
qed

lemma removeCanvas_keys:
  "fst ` set (canvasRefs (removeCanvas p s)) =
     (if p \<in> fst ` set (pageContainerRefs s) then fst ` set (canvasRefs s)
      else fst ` set (canvasRefs s) - {p})"
  "fst ` set (contextRefs (removeCanvas p s)) =
     (if p \<notin> fst ` set (pageContainerRefs s) \<and> p \<in> fst ` set (canvasRefs s)
      then fst ` set (contextRefs s) - {p} else fst ` set (contextRefs s))"
  by (auto simp add: removeCanvas_def key_lookup [of p "pageContainerRefs s"]
      key_lookup [of p "canvasRefs s"] delete_keys_set split: option.splits)

lemma removeCanvas_store:
  "map_of (annotationsRef (removeCanvas p s)) i =
     (if p \<notin> fst ` set (pageContainerRefs s) \<and> p \<in> fst ` set (canvasRefs s) \<and> i = p
      then None else map_of (annotationsRef s) i)"
  by (auto simp add: removeCanvas_def key_lookup [of p "pageContainerRefs s"]
      key_lookup [of p "canvasRefs s"] AList.delete_conv' split: option.splits)

lemma fold_removeCanvas_keys:
  shows "fst ` set (canvasRefs (fold removeCanvas ks s)) =
     fst ` set (canvasRefs s) - {k \<in> set ks. k \<notin> fst ` set (pageContainerRefs s)}"
    and "fst ` set (contextRefs (fold removeCanvas ks s)) =
     fst ` set (contextRefs s) -
       {k \<in> set ks. k \<notin> fst ` set (pageContainerRefs s) \<and> k \<in> fst ` set (canvasRefs s)}"
    and "map_of (annotationsRef (fold removeCanvas ks s)) i =
      (if i \<in> set ks \<and> i \<notin> fst ` set (pageContainerRefs s) \<and> i \<in> fst ` set (canvasRefs s)
       then None else map_of (annotationsRef s) i)"
proof (induction ks arbitrary: s)
  case Nil
  {
    case 1 show ?case by simp
  next
    case 2 show ?case by simp
  next
    case 3 show ?case by simp
  }
next
  case (Cons k ks)
  {
    case 1
    show ?case by (simp add: Cons.IH removeCanvas_keys; blast?)
  next
    case 2
    show ?case by (simp add: Cons.IH removeCanvas_keys; blast?)
  next
    case 3
    show ?case by (simp add: Cons.IH removeCanvas_keys removeCanvas_store; blast?)
  }
qed

lemma effect_keys:
  shows "fst ` set (canvasRefs (canvasLifecycleEffect g s)) = fst ` set (pageContainerRefs s)"
    and "fst ` set (contextRefs (canvasLifecycleEffect g s)) =
     (fst ` set (contextRefs s) - (fst ` set (canvasRefs s) - fst ` set (pageContainerRefs s))) \<union>
     {k \<in> fst ` set (pageContainerRefs s). k \<notin> fst ` set (canvasRefs s) \<and> g k}"
    and "map_of (annotationsRef (canvasLifecycleEffect g s)) i =
      (if i \<in> fst ` set (canvasRefs s) \<and> i \<notin> fst ` set (pageContainerRefs s)
       then None else map_of (annotationsRef s) i)"
  unfolding canvasLifecycleEffect_def Let_def
  by (simp_all add: fold_removeCanvas_keys fold_manageCanvas_keys; blast?)+


lemma registry_frame [simp]:
  "pageContainerRefs (handlePageContainerRefsChange refs s) = refs"
  "canvasRefs (handlePageContainerRefsChange refs s) = canvasRefs s"
  "contextRefs (handlePageContainerRefsChange refs s) = contextRefs s"
  "annotationsRef (handlePageContainerRefsChange refs s) = annotationsRef s"
  "activeTool (handlePageContainerRefsChange refs s) = activeTool s"
  "document (handlePageContainerRefsChange refs s) = document s"
  by (simp_all add: handlePageContainerRefsChange_def)

text \<open>
  C1, as stated, fails. Right after the viewer emits the mapping with index 0, no surface
  is live: the callback only stores the mapping, and surfaces change when the effect next
  runs. And when the effect runs but \<^verbatim>\<open>getContext('2d')\<close> yields no context, index 0 has a
  canvas but still no live surface.
\<close>

theorem registry_update_counterexample:
  "fst ` set [(0 :: int, 7 :: nat)] = {0} \<and>
   liveSurfaces (handlePageContainerRefsChange [(0, 7)] (initialEditor sampleDocument)) = {} \<and>
   liveSurfaces (canvasLifecycleEffect (\<lambda>i. False)
     (handlePageContainerRefsChange [(0, 7)] (initialEditor sampleDocument))) = {} \<and>
   fst ` set (canvasRefs (canvasLifecycleEffect (\<lambda>i. False)
     (handlePageContainerRefsChange [(0, 7)] (initialEditor sampleDocument)))) = {0}"
  by (simp add: liveSurfaces_def handlePageContainerRefsChange_def initialEditor_def
      canvasLifecycleEffect_def manageCanvas_def removeCanvas_def Let_def)

text \<open>
  C1, amended. Take a state in which every canvas has its context and only pages with a
  canvas have annotations, a registry update, and the run of the canvas lifecycle effect
  that follows it, in which every canvas created obtains its context. After that run the
  indices with a live surface are exactly the indices of the mapping just emitted, the
  state is again of that kind, and the annotation sequences are those of before for the
  indices of the mapping and gone for every other index.
\<close>

theorem surfaces_track_registry:
  assumes "surfacesComplete s"
    and "list_all (\<lambda>i. i \<in> fst ` set (canvasRefs s) \<or> getContext i) (map fst refs)"
  shows "liveSurfaces (syncRegistry getContext refs s) = fst ` set refs \<and>
         surfacesComplete (syncRegistry getContext refs s) \<and>
         (\<forall>i. map_of (annotationsRef (syncRegistry getContext refs s)) i =
            (if i \<in> fst ` set refs then map_of (annotationsRef s) i else None))"
proof -
  let ?s = "handlePageContainerRefsChange refs s"
  let ?s' = "syncRegistry getContext refs s"
  from assms(1) have x: "fst ` set (contextRefs s) = fst ` set (canvasRefs s)"
    and a: "fst ` set (annotationsRef s) \<subseteq> fst ` set (canvasRefs s)"
    by (simp_all add: surfacesComplete_def)
  from assms(2) have g: "\<And>k. k \<in> fst ` set refs \<Longrightarrow> k \<notin> fst ` set (canvasRefs s) \<Longrightarrow> getContext k"
    by (auto simp add: list_all_iff)
  have c': "fst ` set (canvasRefs ?s') = fst ` set refs"
    using effect_keys(1) [of getContext ?s] by (simp add: syncRegistry_def)
  have "{k \<in> fst ` set refs. k \<notin> fst ` set (canvasRefs s) \<and> getContext k} =
      fst ` set refs - fst ` set (canvasRefs s)"
    using g by blast
  then have "fst ` set (contextRefs ?s') =
      (fst ` set (canvasRefs s) - (fst ` set (canvasRefs s) - fst ` set refs)) \<union>
      (fst ` set refs - fst ` set (canvasRefs s))"
    using effect_keys(2) [of getContext ?s] x by (simp add: syncRegistry_def)
  then have x': "fst ` set (contextRefs ?s') = fst ` set refs"
    by blast
  have m': "map_of (annotationsRef ?s') i =
      (if i \<in> fst ` set refs then map_of (annotationsRef s) i else None)" for i
  proof (cases "i \<in> fst ` set (canvasRefs s)")
    case True
    then show ?thesis
      using effect_keys(3) [of getContext ?s i] by (simp add: syncRegistry_def)
  next
    case False
    with a have "i \<notin> fst ` set (annotationsRef s)" by auto
    then have "map_of (annotationsRef s) i = None" by (simp add: map_of_eq_None_iff)
    with False show ?thesis
      using effect_keys(3) [of getContext ?s i] by (simp add: syncRegistry_def)
  qed
  have "fst ` set (annotationsRef ?s') \<subseteq> fst ` set refs"
  proof
    fix i assume "i \<in> fst ` set (annotationsRef ?s')"
    then have "map_of (annotationsRef ?s') i \<noteq> None" by (simp add: map_of_eq_None_iff)
    then show "i \<in> fst ` set refs" using m' [of i] by (simp split: if_splits)
  qed
  with c' x' m' show ?thesis
    by (simp add: liveSurfaces_def surfacesComplete_def)
qed

theorem surfaces_track_registry_witness:
  "surfacesComplete blurred \<and>
   liveSurfaces (syncRegistry (\<lambda>i. True) [(1, 8)] blurred) = {1} \<and>
   annotationsRef blurred \<noteq> [] \<and>
   map_of (annotationsRef (syncRegistry (\<lambda>i. True) [(1, 8)] blurred)) 0 = None"
proof -
  have c: "surfacesComplete blurred"
    by (simp add: surfacesComplete_def blurred_eval)
  have g: "list_all (\<lambda>i. i \<in> fst ` set (canvasRefs blurred) \<or> True) (map fst [(1 :: int, 8 :: nat)])"
    by simp
  from surfaces_track_registry [OF c g] c show ?thesis
    by (simp add: blurred_eval)
qed

lemma initial_complete: "surfacesComplete (initialEditor d)"
  by (simp add: surfacesComplete_def initialEditor_def)

text \<open>
  So for every sequence of registry updates from the mounted editor, each followed by a
  run of the effect, the live surfaces are those of the last mapping.
\<close>

lemma registry_sequence:
  "surfacesComplete (fold (syncRegistry (\<lambda>i. True)) updates (initialEditor d)) \<and>
   (updates \<noteq> [] \<longrightarrow>
      liveSurfaces (fold (syncRegistry (\<lambda>i. True)) updates (initialEditor d)) =
        fst ` set (last updates))"
proof (induction updates rule: rev_induct)
  case Nil
  then show ?case by (simp add: initial_complete)
next
  case (snoc refs updates)
  then have c: "surfacesComplete (fold (syncRegistry (\<lambda>i. True)) updates (initialEditor d))"
    by simp
  have g: "list_all (\<lambda>i. i \<in> fst ` set (canvasRefs
      (fold (syncRegistry (\<lambda>i. True)) updates (initialEditor d))) \<or> True) (map fst refs)"
    by (simp add: list_all_iff)
  from surfaces_track_registry [OF c g] show ?case by simp
qed


lemma interaction_store_keys:
  "fst ` set (annotationsRef (handleToolInteraction e s)) \<subseteq>
     fst ` set (annotationsRef s) \<union> fst ` set (canvasRefs s)"
proof (cases "activeTool s = Tool_none \<or> landsOn e s = None")
  case True
  then show ?thesis by (simp add: interaction_misses)
next
  case False
  then obtain p cv where l: "landsOn e s = Some (p, cv)" and n: "activeTool s \<noteq> Tool_none"
    by auto
  have p: "p \<in> fst ` set (canvasRefs s)"
    using landsOn_canvas [OF l] by (rule map_of_key)
  have m: "fst ` set (annotationsRef (handleMouseMove p b u s)) \<subseteq>
      insert p (fst ` set (annotationsRef s))" for b u
    by (auto simp add: handleMouseMove_def eraseMove_def Let_def AList.dom_update
        split: option.splits list.splits ann_data.splits)
  have u: "fst ` set (annotationsRef (handleMouseUp p b r u s)) \<subseteq>
      insert p (fst ` set (annotationsRef s))" for b r u
    by (auto simp add: handleMouseUp_def Let_def AList.dom_update split: option.splits)
  consider "handleToolInteraction e s = s"
    | x y where "handleToolInteraction e s =
        s\<lparr>isDrawingRef := True, startCoordsRef := x, currentCoordsRef := y\<rparr>"
    | "handleToolInteraction e s = handleMouseMove p (boundedCanvas e cv) (uuid e) s"
    | "handleToolInteraction e s =
        handleMouseUp p (boundedCanvas e cv) (prompt_reply e) (uuid e) s"
    by (cases "ev_type e"; cases "isDrawingRef s"; simp add: interaction_lands [OF n l] Let_def)
  then show ?thesis
  proof cases
    case 1
    then show ?thesis by auto
  next
    case 2
    then show ?thesis by auto
  next
    case 3
    with p m [of "boundedCanvas e cv" "uuid e"] show ?thesis by auto
  next
    case 4
    with p u [of "boundedCanvas e cv" "prompt_reply e" "uuid e"] show ?thesis by auto
  qed
qed

lemma fold_applyToolToCanvas_keys [simp]:
  "fst ` set (canvasRefs (fold (applyToolToCanvas a b c) ps s)) = fst ` set (canvasRefs s)"
proof (induction ps arbitrary: s)
  case Nil
  then show ?case by simp
next
  case (Cons p ps)
  have "fst ` set (canvasRefs (applyToolToCanvas a b c p s)) = fst ` set (canvasRefs s)"
    by (simp add: applyToolToCanvas_def Let_def update_keys_present split: option.splits)
  with Cons.IH [of "applyToolToCanvas a b c p s"] show ?case by simp
qed

lemma handleToolChange_canvas_keys [simp]:
  "fst ` set (canvasRefs (handleToolChange t s)) = fst ` set (canvasRefs s)"
  by (simp add: handleToolChange_def Let_def)

lemma fold_redraw_context_keys [simp]:
  "fst ` set (contextRefs (fold redrawPageAnnotations ps s)) = fst ` set (contextRefs s)"
  by (induction ps arbitrary: s) simp_all

text \<open>The pointer handlers, the tool buttons and the renderer keep that kind of state.\<close>

lemma surfacesComplete_preserved:
  assumes "surfacesComplete s"
  shows "surfacesComplete (handleToolInteraction e s)"
    and "surfacesComplete (handleToolChange t s)"
    and "surfacesComplete (handleMouseLeave s)"
    and "surfacesComplete (s\<lparr>document := d\<rparr>)"
proof -
  from assms have x: "fst ` set (contextRefs s) = fst ` set (canvasRefs s)"
    and a: "fst ` set (annotationsRef s) \<subseteq> fst ` set (canvasRefs s)"
    by (simp_all add: surfacesComplete_def)
  from a interaction_store_keys [of e s]
  have "fst ` set (annotationsRef (handleToolInteraction e s)) \<subseteq> fst ` set (canvasRefs s)"
    by blast
  with x show "surfacesComplete (handleToolInteraction e s)"
    by (simp add: surfacesComplete_def)
  from x a show "surfacesComplete (handleToolChange t s)"
    by (simp add: surfacesComplete_def)
  from x a show "surfacesComplete (handleMouseLeave s)"
    by (simp add: surfacesComplete_def handleMouseLeave_def)
  from x a show "surfacesComplete (s\<lparr>document := d\<rparr>)"
    by (simp add: surfacesComplete_def)
qed

section \<open>Pointer routing\<close>

text \<open>
  C5, on the code. The viewer emits the mapping with page 0 (element 7), the user selects
  the blur tool, and the effect runs: \<open>handleToolChange\<close> finds no canvas yet, so it
  touches no text layer, and the effect creates the canvas with pointer input on but, unlike
  \<open>handleToolChange\<close>, never touches the text layer. The surface of page 0 is live and
  accepts pointer input, and the page's text layer accepts it too.
\<close>

theorem text_layer_left_accepting:
  "activeTool (onePage Tool_blur) = Tool_blur \<and>
   liveSurfaces (onePage Tool_blur) = {0} \<and>
   map_of (pageContainerRefs (onePage Tool_blur)) 0 = Some 7 \<and>
   map_option (\<lambda>canvas. acceptsPointerInput (cv_pointerEvents canvas))
     (map_of (canvasRefs (onePage Tool_blur)) 0) = Some True \<and>
   map_option acceptsPointerInput (textLayer (document (onePage Tool_blur) 7)) = Some True"
  by (simp add: onePage_eval liveSurfaces_def acceptsPointerInput_def isDrawingTool_def
      sampleDocument_def samplePage_def)

end
